theory Spec2Isabelle
  imports Complex_Main "HOL-Library.Char_ord" "HOL-Library.List_Lexorder"
begin

section \<open>The book catalog service of \<^verbatim>\<open>server.js\<close>\<close>

text \<open>
  The service is a set of Express handlers; each one sends parameterised SQL statements
  to one PostgreSQL table through \<^verbatim>\<open>pool.query\<close> and turns the outcome into an
  HTTP response. The embedding has two layers: the handlers, translated from the
  JavaScript, and the statements they issue, given the meaning PostgreSQL gives them
  on the table declared in \<^verbatim>\<open>initDatabase\<close>.

  A handler takes the state of the store and returns its response with the new state;
  requests are handled one after the other. Prices and their sum are exact decimals in
  the store; the numbers that \<^verbatim>\<open>parseInt\<close> and \<^verbatim>\<open>parseFloat\<close> make of a count
  and of the sum are doubles. Strings are compared character by character.
\<close>

subsection \<open>Rows of the \<^verbatim>\<open>books\<close> table\<close>

text \<open>
  One row per book, with the columns of the \<^verbatim>\<open>CREATE TABLE\<close> statement. A nullable
  column is an \<open>option\<close>. The price, a \<^verbatim>\<open>DECIMAL(10,2)\<close>, is held in hundredths;
  the two timestamps are points of a discrete clock.
\<close>

record book =
  book_id :: int
  title :: string
  author :: string
  year :: "int option"
  genre :: "string option"
  pages :: "int option"
  price :: "int option"
  isbn :: "string option"
  description :: "string option"
  created_at :: nat
  updated_at :: nat

subsection \<open>Request bodies and JavaScript truthiness\<close>

text \<open>
  A property of the JSON body is missing (\<^verbatim>\<open>undefined\<close> after destructuring),
  \<^verbatim>\<open>null\<close>, or a value. The body has the shape the API documents: strings for
  title, author, genre, isbn and description, integers for year and pages, and a price
  with two decimals (in hundredths).
\<close>

datatype 'a jsval = Undefined | Null | Val 'a

record body =
  b_title :: "string jsval"
  b_author :: "string jsval"
  b_year :: "int jsval"
  b_genre :: "string jsval"
  b_pages :: "int jsval"
  b_price :: "int jsval"
  b_isbn :: "string jsval"
  b_description :: "string jsval"

text \<open>
  Truthiness: \<^verbatim>\<open>undefined\<close> and \<^verbatim>\<open>null\<close> are falsy, a string is falsy when it is
  empty, a number when it is zero.
\<close>

definition truthy_str :: "string jsval \<Rightarrow> bool" where
  "truthy_str v = (case v of Val s \<Rightarrow> s \<noteq> [] | _ \<Rightarrow> False)"

definition truthy_num :: "int jsval \<Rightarrow> bool" where
  "truthy_num v = (case v of Val n \<Rightarrow> n \<noteq> 0 | _ \<Rightarrow> False)"

text \<open>\<^verbatim>\<open>x || null\<close>: the left operand when it is truthy, \<^verbatim>\<open>null\<close> otherwise.\<close>

definition or_null :: "('a jsval \<Rightarrow> bool) \<Rightarrow> 'a jsval \<Rightarrow> 'a jsval" where
  "or_null truthy v = (if truthy v then v else Null)"

text \<open>
  The driver sends \<^verbatim>\<open>undefined\<close> and \<^verbatim>\<open>null\<close> as SQL \<^verbatim>\<open>NULL\<close>, any other
  value as a parameter of the statement.
\<close>

definition to_param :: "'a jsval \<Rightarrow> 'a option" where
  "to_param v = (case v of Val x \<Rightarrow> Some x | _ \<Rightarrow> None)"

record params =
  p_title :: "string option"
  p_author :: "string option"
  p_year :: "int option"
  p_genre :: "string option"
  p_pages :: "int option"
  p_price :: "int option"
  p_isbn :: "string option"
  p_description :: "string option"

text \<open>
  The parameter array of the \<^verbatim>\<open>INSERT\<close> and \<^verbatim>\<open>UPDATE\<close> statements:
  \<^verbatim>\<open>[title, author, year || null, genre || null, pages || null, price || null,
  isbn || null, description || null]\<close>.
\<close>

definition book_params :: "body \<Rightarrow> params" where
  "book_params b =
     \<lparr>p_title = to_param (b_title b),
      p_author = to_param (b_author b),
      p_year = to_param (or_null truthy_num (b_year b)),
      p_genre = to_param (or_null truthy_str (b_genre b)),
      p_pages = to_param (or_null truthy_num (b_pages b)),
      p_price = to_param (or_null truthy_num (b_price b)),
      p_isbn = to_param (or_null truthy_str (b_isbn b)),
      p_description = to_param (or_null truthy_str (b_description b))\<rparr>"

subsection \<open>The store\<close>

text \<open>
  The state of the store: the rows of the table, the next value of the \<^verbatim>\<open>SERIAL\<close>
  sequence and the clock read by \<^verbatim>\<open>CURRENT_TIMESTAMP\<close>. Three more fields describe
  the connection: \<open>faults\<close> tells for each coming statement whether the store will be
  unreachable for it (no entry: reachable), \<open>issued\<close> counts the statements sent and
  \<open>failed\<close> those that ended in an error.
\<close>

record db =
  rows :: "book list"
  next_id :: int
  now :: nat
  faults :: "bool list"
  issued :: nat
  failed :: nat

datatype dberror =
    Unavailable
  | InvalidInteger
  | ValueTooLong
  | OutOfRange
  | NotNullViolation
  | UniqueViolation
  | BadPattern

text \<open>
  \<^verbatim>\<open>await pool.query(...)\<close>: the statement is sent; it either fails, leaving the table
  as it was, or returns its result and the new state. A statement is given as the
  function from the state to that outcome.
\<close>

definition pool_query :: "db \<Rightarrow> (db \<Rightarrow> dberror + 'a \<times> db) \<Rightarrow> (dberror + 'a) \<times> db" where
  "pool_query d stmt =
     (let d1 = d\<lparr>faults := tl (faults d), issued := issued d + 1\<rparr> in
      if faults d \<noteq> [] \<and> hd (faults d)
      then (Inl Unavailable, d1\<lparr>failed := failed d1 + 1\<rparr>)
      else (case stmt d1 of
              Inl e \<Rightarrow> (Inl e, d1\<lparr>failed := failed d1 + 1\<rparr>)
            | Inr (a, d2) \<Rightarrow> (Inr a, d2)))"

text \<open>The store is reachable for the next statement.\<close>

definition next_ok :: "db \<Rightarrow> bool" where
  "next_ok d = (case faults d of [] \<Rightarrow> True | f # _ \<Rightarrow> \<not> f)"

text \<open>The store is reachable for the next \<open>n\<close> statements.\<close>

definition reachable_for :: "nat \<Rightarrow> db \<Rightarrow> bool" where
  "reachable_for n d = list_all (\<lambda>f. \<not> f) (take n (faults d))"

subsection \<open>Column types\<close>

text \<open>
  Assignment to \<^verbatim>\<open>VARCHAR(n)\<close>: a longer string is an error, unless the excess
  characters are all spaces, in which case it is cut to \<open>n\<close> characters.
\<close>

definition varchar :: "nat \<Rightarrow> string \<Rightarrow> dberror + string" where
  "varchar n s =
     (if length s \<le> n then Inr s
      else if list_all (\<lambda>c. c = CHR '' '') (drop n s) then Inr (take n s)
      else Inl ValueTooLong)"

text \<open>\<^verbatim>\<open>INTEGER\<close> is a 32-bit signed integer.\<close>

definition int4 :: "int \<Rightarrow> dberror + int" where
  "int4 v = (if - 2147483648 \<le> v \<and> v \<le> 2147483647 then Inr v else Inl OutOfRange)"

text \<open>\<^verbatim>\<open>DECIMAL(10,2)\<close>: at most ten digits, two of them after the point.\<close>

definition decimal_10_2 :: "int \<Rightarrow> dberror + int" where
  "decimal_10_2 c = (if \<bar>c\<bar> < 10000000000 then Inr c else Inl OutOfRange)"

definition nullable :: "('a \<Rightarrow> dberror + 'a) \<Rightarrow> 'a option \<Rightarrow> dberror + 'a option" where
  "nullable conv p = (case p of None \<Rightarrow> Inr None | Some x \<Rightarrow> map_sum id Some (conv x))"

definition not_null :: "('a \<Rightarrow> dberror + 'a) \<Rightarrow> 'a option \<Rightarrow> dberror + 'a" where
  "not_null conv p = (case p of None \<Rightarrow> Inl NotNullViolation | Some x \<Rightarrow> conv x)"

text \<open>Sequencing of steps that may fail: the first error ends the statement.\<close>

definition bind_err :: "dberror + 'a \<Rightarrow> ('a \<Rightarrow> dberror + 'b) \<Rightarrow> dberror + 'b" where
  "bind_err m f = (case m of Inl e \<Rightarrow> Inl e | Inr x \<Rightarrow> f x)"

text \<open>
  The eight editable columns: \<open>convert_columns\<close> brings the parameters to the column
  types, \<open>assign_columns\<close> writes them into a row and leaves the other columns alone.
\<close>

record columns =
  c_title :: string
  c_author :: string
  c_year :: "int option"
  c_genre :: "string option"
  c_pages :: "int option"
  c_price :: "int option"
  c_isbn :: "string option"
  c_description :: "string option"

definition convert_columns :: "params \<Rightarrow> dberror + columns" where
  "convert_columns p =
     bind_err (not_null (varchar 500) (p_title p)) (\<lambda>t.
     bind_err (not_null (varchar 300) (p_author p)) (\<lambda>a.
     bind_err (nullable int4 (p_year p)) (\<lambda>y.
     bind_err (nullable (varchar 100) (p_genre p)) (\<lambda>g.
     bind_err (nullable int4 (p_pages p)) (\<lambda>pg.
     bind_err (nullable decimal_10_2 (p_price p)) (\<lambda>pr.
     bind_err (nullable (varchar 20) (p_isbn p)) (\<lambda>i.
       Inr \<lparr>c_title = t, c_author = a, c_year = y, c_genre = g, c_pages = pg,
            c_price = pr, c_isbn = i, c_description = p_description p\<rparr>)))))))"

definition assign_columns :: "columns \<Rightarrow> book \<Rightarrow> book" where
  "assign_columns c r =
     r\<lparr>title := c_title c, author := c_author c, year := c_year c, genre := c_genre c,
       pages := c_pages c, price := c_price c, isbn := c_isbn c,
       description := c_description c\<rparr>"

text \<open>
  A parameter compared with the \<^verbatim>\<open>id\<close> column is read as an integer literal:
  optional blanks, an optional sign, decimal digits, optional blanks; anything else, or a
  value outside 32 bits, is an error of the statement.
\<close>

definition is_space :: "char \<Rightarrow> bool" where
  "is_space c = (c \<in> {CHR '' '', CHR 0x09, CHR 0x0A, CHR 0x0B, CHR 0x0C, CHR 0x0D})"

definition is_digit :: "char \<Rightarrow> bool" where
  "is_digit c = (CHR ''0'' \<le> c \<and> c \<le> CHR ''9'')"

definition digit_val :: "char \<Rightarrow> int" where
  "digit_val c = of_char c - 48"

definition digits_value :: "string \<Rightarrow> int" where
  "digits_value ds = foldl (\<lambda>acc c. 10 * acc + digit_val c) 0 ds"

definition int4in :: "string \<Rightarrow> dberror + int" where
  "int4in s =
     (let t = dropWhile is_space s;
          neg = (t \<noteq> [] \<and> hd t = CHR ''-'');
          u = (if t \<noteq> [] \<and> (hd t = CHR ''-'' \<or> hd t = CHR ''+'') then tl t else t);
          ds = takeWhile is_digit u;
          rest = dropWhile is_digit u
      in if ds = [] \<or> \<not> list_all is_space rest then Inl InvalidInteger
         else int4 (if neg then - digits_value ds else digits_value ds))"

subsection \<open>Text: lower case, \<^verbatim>\<open>ILIKE\<close>, three-valued logic\<close>

text \<open>
  \<^verbatim>\<open>LOWER\<close> and the case folding of \<^verbatim>\<open>ILIKE\<close>, on the letters A to Z; every other
  character is left as it is.
\<close>

definition lower_char :: "char \<Rightarrow> char" where
  "lower_char c =
     (case map_of (zip ''ABCDEFGHIJKLMNOPQRSTUVWXYZ'' ''abcdefghijklmnopqrstuvwxyz'') c of
        None \<Rightarrow> c
      | Some l \<Rightarrow> l)"

definition lower :: "string \<Rightarrow> string" where
  "lower s = map lower_char s"

text \<open>
  A \<^verbatim>\<open>LIKE\<close> pattern: \<^verbatim>\<open>%\<close> stands for any string, \<^verbatim>\<open>_\<close> for any one
  character, a backslash makes the character after it literal, and a pattern that ends
  in a lone backslash is an error.
\<close>

datatype ltoken = AnyString | AnyChar | Literal char

fun like_tokens :: "string \<Rightarrow> ltoken list option" where
  "like_tokens [] = Some []"
| "like_tokens (c # cs) =
     (if c = CHR 0x5C then
        (case cs of [] \<Rightarrow> None
         | e # es \<Rightarrow> map_option (Cons (Literal e)) (like_tokens es))
      else if c = CHR ''%'' then map_option (Cons AnyString) (like_tokens cs)
      else if c = CHR ''_'' then map_option (Cons AnyChar) (like_tokens cs)
      else map_option (Cons (Literal c)) (like_tokens cs))"

text \<open>\<^verbatim>\<open>ILIKE\<close> compares literal characters without regard to case.\<close>

fun ilike_match :: "ltoken list \<Rightarrow> string \<Rightarrow> bool" where
  "ilike_match [] t = (t = [])"
| "ilike_match (AnyString # ps) [] = ilike_match ps []"
| "ilike_match (AnyString # ps) (x # xs) =
     (ilike_match ps (x # xs) \<or> ilike_match (AnyString # ps) xs)"
| "ilike_match (AnyChar # ps) [] = False"
| "ilike_match (AnyChar # ps) (x # xs) = ilike_match ps xs"
| "ilike_match (Literal c # ps) [] = False"
| "ilike_match (Literal c # ps) (x # xs) = (lower_char x = lower_char c \<and> ilike_match ps xs)"

text \<open>SQL truth values: \<open>None\<close> is \<^verbatim>\<open>NULL\<close>.\<close>

definition or3 :: "bool option \<Rightarrow> bool option \<Rightarrow> bool option" where
  "or3 a b =
     (if a = Some True \<or> b = Some True then Some True
      else if a = None \<or> b = None then None else Some False)"

definition and3 :: "bool option \<Rightarrow> bool option \<Rightarrow> bool option" where
  "and3 a b =
     (if a = Some False \<or> b = Some False then Some False
      else if a = None \<or> b = None then None else Some True)"

subsection \<open>JavaScript numbers\<close>

text \<open>
  \<^verbatim>\<open>parseFloat\<close> and \<^verbatim>\<open>parseInt\<close> turn the decimal that the store returns into a
  double: the nearest number with a mantissa of 53 bits, a tie going to the even
  mantissa, and infinity when that number is \<open>2 ^ 1024\<close> or more. The sum of the
  prices has two places and is given in hundredths; a count has none. Neither is
  between 0 and 0.01, so the numbers below the normal range do not occur.

  \<open>round_half_even n d\<close> is the integer nearest to \<open>n / d\<close>; \<open>normalise n d e\<close>
  rewrites \<open>n / d * 2 ^ e\<close> so that \<open>n / d\<close> lies between \<open>2 ^ 52\<close> and \<open>2 ^ 53\<close>.
\<close>

definition round_half_even :: "nat \<Rightarrow> nat \<Rightarrow> nat" where
  "round_half_even n d =
     (let q = n div d; r = n mod d
      in if 2 * r < d \<or> (2 * r = d \<and> even q) then q else q + 1)"

function normalise :: "nat \<Rightarrow> nat \<Rightarrow> int \<Rightarrow> nat \<times> nat \<times> int" where
  "normalise n d e =
     (if n = 0 \<or> d = 0 then (n, d, e)
      else if n < 2 ^ 52 * d then normalise (2 * n) d (e - 1)
      else if 2 ^ 53 * d \<le> n then normalise n (2 * d) (e + 1)
      else (n, d, e))"
  by pat_completeness auto
termination
proof (relation "measure (\<lambda>(n, d, e). (2 ^ 52 * d - n) + (n + 1 - 2 ^ 53 * d))")
  show "wf (measure (\<lambda>(n, d, e). (2 ^ 52 * d - n) + (n + 1 - 2 ^ 53 * d)))" by simp
next
  fix n d :: nat and e :: int
  assume "\<not> (n = 0 \<or> d = 0)" "n < 2 ^ 52 * d"
  then show "((2 * n, d, e - 1), n, d, e) \<in> measure (\<lambda>(n, d, e). (2 ^ 52 * d - n) + (n + 1 - 2 ^ 53 * d))"
    by simp
next
  fix n d :: nat and e :: int
  assume a: "\<not> (n = 0 \<or> d = 0)" "\<not> n < 2 ^ 52 * d" "2 ^ 53 * d \<le> n"
  then have "2 ^ 53 * d < 2 ^ 53 * (2 * d)" and "2 ^ 53 * d < n + 1" by simp_all
  then have "n + 1 - 2 ^ 53 * (2 * d) < n + 1 - 2 ^ 53 * d" by (rule diff_less_mono2)
  moreover from a have "2 ^ 52 * (2 * d) - n = 0" and "2 ^ 52 * d - n = 0" by simp_all
  ultimately show "((n, 2 * d, e + 1), n, d, e) \<in> measure (\<lambda>(n, d, e). (2 ^ 52 * d - n) + (n + 1 - 2 ^ 53 * d))"
    by simp
qed

declare normalise.simps [simp del]

text \<open>A number is finite, with its exact value, or one of the two infinities.\<close>

datatype number = Finite rat | PlusInfinity | MinusInfinity

definition binary64 :: "nat \<Rightarrow> nat \<Rightarrow> number" where
  "binary64 n d =
     (case normalise n d 0 of
        (n', d', e) \<Rightarrow>
          (let v = of_nat (round_half_even n' d') * 2 powi e
           in if 2 ^ 1024 \<le> v then PlusInfinity else Finite v))"

definition negative :: "number \<Rightarrow> number" where
  "negative x = (case x of Finite v \<Rightarrow> Finite (- v) | PlusInfinity \<Rightarrow> MinusInfinity
                 | MinusInfinity \<Rightarrow> PlusInfinity)"

definition parseFloat :: "int \<Rightarrow> number" where
  "parseFloat c = (if 0 \<le> c then binary64 (nat c) 100 else negative (binary64 (nat (- c)) 100))"

definition parseInt :: "nat \<Rightarrow> number" where
  "parseInt n = binary64 n 1"

subsection \<open>Responses and handlers\<close>

record stats =
  totalBooks :: number
  uniqueAuthors :: number
  uniqueGenres :: number
  totalValue :: number

datatype payload =
    Book book
  | Books "book list"
  | Message string
  | Error string
  | Statistics stats
  | Genres "string list"
  | NoBody

record response =
  status :: nat
  payload :: payload

definition respond :: "nat \<Rightarrow> payload \<Rightarrow> response" where
  "respond s p = \<lparr>status = s, payload = p\<rparr>"

text \<open>
  The body of a \<^verbatim>\<open>try\<close> block is a computation that ends in a response or in the
  error of an awaited statement; \<open>then_do\<close> runs the rest of the block after a statement
  that succeeded, and \<open>catch_500\<close> is the \<^verbatim>\<open>catch\<close> clause, the same in every handler
  but for its message.
\<close>

definition then_do ::
  "(dberror + 'a) \<times> db \<Rightarrow> ('a \<Rightarrow> db \<Rightarrow> (dberror + 'b) \<times> db) \<Rightarrow> (dberror + 'b) \<times> db" where
  "then_do m f = (case m of (Inl e, d) \<Rightarrow> (Inl e, d) | (Inr x, d) \<Rightarrow> f x d)"

definition catch_500 :: "string \<Rightarrow> (dberror + response) \<times> db \<Rightarrow> response \<times> db" where
  "catch_500 msg m =
     (case m of (Inl e, d) \<Rightarrow> (respond 500 (Error msg), d) | (Inr r, d) \<Rightarrow> (r, d))"

text \<open>\<^verbatim>\<open>result.rows[0]\<close> as a response body; there is none when no row came back.\<close>

definition first_row :: "book list \<Rightarrow> payload" where
  "first_row res = (case res of [] \<Rightarrow> NoBody | r # _ \<Rightarrow> Book r)"

subsection \<open>Create\<close>

text \<open>
  \<^verbatim>\<open>INSERT INTO books (title, ..., description) VALUES ($1, ..., $8) RETURNING *\<close>.
  The id comes from the sequence, both timestamps default to the current time, and the
  primary key rejects an id that is already in the table.
\<close>

definition sql_insert :: "params \<Rightarrow> db \<Rightarrow> dberror + book list \<times> db" where
  "sql_insert p d =
     bind_err (int4 (next_id d)) (\<lambda>i.
     bind_err (convert_columns p) (\<lambda>c.
       if i \<in> set (map book_id (rows d)) then Inl UniqueViolation
       else
         (let r = assign_columns c
                \<lparr>book_id = i, title = [], author = [], year = None, genre = None,
                 pages = None, price = None, isbn = None, description = None,
                 created_at = now d, updated_at = now d\<rparr>
          in Inr ([r], d\<lparr>rows := rows d @ [r], next_id := next_id d + 1\<rparr>))))"

text \<open>
  \<^verbatim>\<open>app.post('/api/books')\<close>: the check of title and author comes first and returns
  without a statement.
\<close>

definition create_book :: "db \<Rightarrow> body \<Rightarrow> response \<times> db" where
  "create_book d b =
     catch_500 ''Failed to add book''
       (if \<not> truthy_str (b_title b) \<or> \<not> truthy_str (b_author b)
        then (Inr (respond 400 (Error ''Title and author are required'')), d)
        else then_do (pool_query d (sql_insert (book_params b)))
               (\<lambda>res d'. (Inr (respond 201 (first_row res)), d')))"

subsection \<open>List\<close>

text \<open>
  The handler collects the conditions of the \<^verbatim>\<open>WHERE\<close> clause, each with its
  parameter: the search condition with the pattern \<^verbatim>\<open>`%${search}%`\<close>, the genre
  condition with the genre. A query parameter is missing or a string; \<^verbatim>\<open>if (search)\<close>
  holds for a string that is not empty.
\<close>

datatype condition = SearchLike string | GenreIs string

definition list_conditions :: "string option \<Rightarrow> string option \<Rightarrow> condition list" where
  "list_conditions search genre_q =
     (case search of
        None \<Rightarrow> []
      | Some s \<Rightarrow> if s \<noteq> [] then [SearchLike (''%'' @ s @ ''%'')] else [])
     @ (case genre_q of
          None \<Rightarrow> []
        | Some g \<Rightarrow> if g \<noteq> [] then [GenreIs g] else [])"

text \<open>
  \<^verbatim>\<open>(title ILIKE $n OR author ILIKE $n OR description ILIKE $n)\<close> and
  \<^verbatim>\<open>genre = $n\<close> on one row; a comparison with a \<^verbatim>\<open>NULL\<close> column is \<^verbatim>\<open>NULL\<close>.
\<close>

fun bad_pattern :: "condition \<Rightarrow> bool" where
  "bad_pattern (SearchLike p) = (like_tokens p = None)"
| "bad_pattern (GenreIs g) = False"

fun condition_value :: "condition \<Rightarrow> book \<Rightarrow> bool option" where
  "condition_value (SearchLike p) r =
     (case like_tokens p of
        None \<Rightarrow> None
      | Some ts \<Rightarrow>
          or3 (or3 (Some (ilike_match ts (title r))) (Some (ilike_match ts (author r))))
              (map_option (ilike_match ts) (description r)))"
| "condition_value (GenreIs g) r = map_option (\<lambda>x. x = g) (genre r)"

text \<open>The conditions joined by \<^verbatim>\<open>AND\<close>; a row is selected when the result is true.\<close>

definition where_clause :: "condition list \<Rightarrow> book \<Rightarrow> bool" where
  "where_clause conds r = (foldr (\<lambda>c acc. and3 (condition_value c r) acc) conds (Some True) = Some True)"

text \<open>
  \<^verbatim>\<open>SELECT * FROM books [WHERE ...] ORDER BY created_at DESC\<close>.
\<close>

definition sql_select_books :: "condition list \<Rightarrow> db \<Rightarrow> dberror + book list \<times> db" where
  "sql_select_books conds d =
     (if list_ex bad_pattern conds then Inl BadPattern
      else Inr (sort_key (\<lambda>r. - int (created_at r)) (filter (where_clause conds) (rows d)), d))"

definition list_books :: "db \<Rightarrow> string option \<Rightarrow> string option \<Rightarrow> response \<times> db" where
  "list_books d search genre_q =
     catch_500 ''Failed to fetch books''
       (then_do (pool_query d (sql_select_books (list_conditions search genre_q)))
          (\<lambda>res d'. (Inr (respond 200 (Books res)), d')))"

subsection \<open>Get, Update, Delete\<close>

text \<open>\<^verbatim>\<open>SELECT * FROM books WHERE id = $1\<close>, with the path parameter as \<^verbatim>\<open>$1\<close>.\<close>

definition sql_select_by_id :: "string \<Rightarrow> db \<Rightarrow> dberror + book list \<times> db" where
  "sql_select_by_id idp d =
     bind_err (int4in idp) (\<lambda>i. Inr (filter (\<lambda>r. book_id r = i) (rows d), d))"

definition get_book :: "db \<Rightarrow> string \<Rightarrow> response \<times> db" where
  "get_book d idp =
     catch_500 ''Failed to fetch book''
       (then_do (pool_query d (sql_select_by_id idp))
          (\<lambda>res d'. if length res = 0
                     then (Inr (respond 404 (Error ''Book not found'')), d')
                     else (Inr (respond 200 (first_row res)), d')))"

text \<open>
  \<^verbatim>\<open>UPDATE books SET title = $1, ..., description = $8, updated_at = CURRENT_TIMESTAMP
  WHERE id = $9 RETURNING *\<close>.
\<close>

definition sql_update :: "params \<Rightarrow> string \<Rightarrow> db \<Rightarrow> dberror + book list \<times> db" where
  "sql_update p idp d =
     bind_err (int4in idp) (\<lambda>i.
     bind_err (convert_columns p) (\<lambda>c.
       (let rows' = map (\<lambda>r. if book_id r = i
                               then (assign_columns c r)\<lparr>updated_at := now d\<rparr> else r) (rows d)
        in Inr (filter (\<lambda>r. book_id r = i) rows', d\<lparr>rows := rows'\<rparr>))))"

definition update_book :: "db \<Rightarrow> string \<Rightarrow> body \<Rightarrow> response \<times> db" where
  "update_book d idp b =
     catch_500 ''Failed to update book''
       (if \<not> truthy_str (b_title b) \<or> \<not> truthy_str (b_author b)
        then (Inr (respond 400 (Error ''Title and author are required'')), d)
        else then_do (pool_query d (sql_update (book_params b) idp))
               (\<lambda>res d'. if length res = 0
                          then (Inr (respond 404 (Error ''Book not found'')), d')
                          else (Inr (respond 200 (first_row res)), d')))"

text \<open>\<^verbatim>\<open>DELETE FROM books WHERE id = $1 RETURNING *\<close>.\<close>

definition sql_delete :: "string \<Rightarrow> db \<Rightarrow> dberror + book list \<times> db" where
  "sql_delete idp d =
     bind_err (int4in idp) (\<lambda>i.
       Inr (filter (\<lambda>r. book_id r = i) (rows d),
            d\<lparr>rows := filter (\<lambda>r. book_id r \<noteq> i) (rows d)\<rparr>))"

definition delete_book :: "db \<Rightarrow> string \<Rightarrow> response \<times> db" where
  "delete_book d idp =
     catch_500 ''Failed to delete book''
       (then_do (pool_query d (sql_delete idp))
          (\<lambda>res d'. if length res = 0
                     then (Inr (respond 404 (Error ''Book not found'')), d')
                     else (Inr (respond 200 (Message ''Book deleted successfully'')), d')))"

subsection \<open>Stats and Genres\<close>

text \<open>The genres that are neither \<^verbatim>\<open>NULL\<close> nor the empty string, row by row.\<close>

definition named_genres :: "book list \<Rightarrow> string list" where
  "named_genres rs = filter (\<lambda>g. g \<noteq> []) (List.map_filter genre rs)"

text \<open>
  The four statements of the statistics, in the order of the handler:
  \<^verbatim>\<open>COUNT(*)\<close>, \<^verbatim>\<open>COUNT(DISTINCT LOWER(author))\<close>, \<^verbatim>\<open>COUNT(DISTINCT genre)\<close>
  over the named genres, and \<^verbatim>\<open>SUM(price)\<close> over the rows with a price, which is
  \<^verbatim>\<open>NULL\<close> when there is no such row.
\<close>

definition sql_count_books :: "db \<Rightarrow> dberror + nat \<times> db" where
  "sql_count_books d = Inr (length (rows d), d)"

definition sql_count_authors :: "db \<Rightarrow> dberror + nat \<times> db" where
  "sql_count_authors d = Inr (length (remdups (map (\<lambda>r. lower (author r)) (rows d))), d)"

definition sql_count_genres :: "db \<Rightarrow> dberror + nat \<times> db" where
  "sql_count_genres d = Inr (length (remdups (named_genres (rows d))), d)"

definition sql_sum_price :: "db \<Rightarrow> dberror + int option \<times> db" where
  "sql_sum_price d =
     Inr (case List.map_filter price (rows d) of [] \<Rightarrow> None | ps \<Rightarrow> Some (sum_list ps), d)"

text \<open>
  \<^verbatim>\<open>app.get('/api/stats')\<close>. \<^verbatim>\<open>parseInt(count)\<close> is the number made of a
  count; \<^verbatim>\<open>parseFloat(total || 0)\<close> is the number made of the sum, and of 0 when the
  sum is \<^verbatim>\<open>NULL\<close>.
\<close>

definition get_stats :: "db \<Rightarrow> response \<times> db" where
  "get_stats d =
     catch_500 ''Failed to fetch statistics''
       (then_do (pool_query d sql_count_books) (\<lambda>total d1.
        then_do (pool_query d1 sql_count_authors) (\<lambda>authors d2.
        then_do (pool_query d2 sql_count_genres) (\<lambda>genres d3.
        then_do (pool_query d3 sql_sum_price) (\<lambda>total_value d4.
          (Inr (respond 200 (Statistics
             \<lparr>totalBooks = parseInt total, uniqueAuthors = parseInt authors,
              uniqueGenres = parseInt genres,
              totalValue = parseFloat (case total_value of None \<Rightarrow> 0 | Some v \<Rightarrow> v)\<rparr>)),
           d4))))))"

text \<open>
  \<^verbatim>\<open>ORDER BY\<close> sorts by the collation of the database, an order on strings that the
  program does not choose; it is the parameter \<open>le\<close>.
\<close>

fun insert_by :: "('a \<Rightarrow> 'a \<Rightarrow> bool) \<Rightarrow> 'a \<Rightarrow> 'a list \<Rightarrow> 'a list" where
  "insert_by le x [] = [x]"
| "insert_by le x (y # ys) = (if le x y then x # y # ys else y # insert_by le x ys)"

definition order_by :: "('a \<Rightarrow> 'a \<Rightarrow> bool) \<Rightarrow> 'a list \<Rightarrow> 'a list" where
  "order_by le xs = foldr (insert_by le) xs []"

text \<open>
  \<^verbatim>\<open>SELECT DISTINCT genre FROM books WHERE genre IS NOT NULL AND genre != ''
  ORDER BY genre\<close>.
\<close>

definition sql_distinct_genres ::
  "(string \<Rightarrow> string \<Rightarrow> bool) \<Rightarrow> db \<Rightarrow> dberror + string list \<times> db" where
  "sql_distinct_genres le d = Inr (order_by le (remdups (named_genres (rows d))), d)"

definition get_genres :: "(string \<Rightarrow> string \<Rightarrow> bool) \<Rightarrow> db \<Rightarrow> response \<times> db" where
  "get_genres le d =
     catch_500 ''Failed to fetch genres''
       (then_do (pool_query d (sql_distinct_genres le))
          (\<lambda>res d'. (Inr (respond 200 (Genres res)), d')))"

subsection \<open>The service\<close>

datatype request =
    List "string option" "string option"
  | Get string
  | Create body
  | Update string body
  | Delete string
  | Stats
  | GenreList

fun handle :: "(string \<Rightarrow> string \<Rightarrow> bool) \<Rightarrow> request \<Rightarrow> db \<Rightarrow> response \<times> db" where
  "handle le (List search genre_q) d = list_books d search genre_q"
| "handle le (Get idp) d = get_book d idp"
| "handle le (Create b) d = create_book d b"
| "handle le (Update idp b) d = update_book d idp b"
| "handle le (Delete idp) d = delete_book d idp"
| "handle le Stats d = get_stats d"
| "handle le GenreList d = get_genres le d"

text \<open>Between two requests the clock may advance; it never goes back.\<close>

definition tick :: "nat \<Rightarrow> db \<Rightarrow> db" where
  "tick n d = d\<lparr>now := now d + n\<rparr>"

subsection \<open>Bodies within the column limits, and the state of a table in use\<close>

text \<open>
  A body is within the limits of the columns when its strings are no longer than the
  \<^verbatim>\<open>VARCHAR\<close> lengths, its integers fit \<^verbatim>\<open>INTEGER\<close> and its price fits
  \<^verbatim>\<open>DECIMAL(10,2)\<close>; the store then takes the values as they are.
\<close>

definition fits_str :: "nat \<Rightarrow> string jsval \<Rightarrow> bool" where
  "fits_str n v = (case v of Val s \<Rightarrow> length s \<le> n | _ \<Rightarrow> True)"

definition fits_int :: "int jsval \<Rightarrow> bool" where
  "fits_int v = (case v of Val n \<Rightarrow> - 2147483648 \<le> n \<and> n \<le> 2147483647 | _ \<Rightarrow> True)"

definition fits_price :: "int jsval \<Rightarrow> bool" where
  "fits_price v = (case v of Val c \<Rightarrow> \<bar>c\<bar> < 10000000000 | _ \<Rightarrow> True)"

definition within_limits :: "body \<Rightarrow> bool" where
  "within_limits b =
     (fits_str 500 (b_title b) \<and> fits_str 300 (b_author b) \<and> fits_int (b_year b)
      \<and> fits_str 100 (b_genre b) \<and> fits_int (b_pages b) \<and> fits_price (b_price b)
      \<and> fits_str 20 (b_isbn b))"

text \<open>
  What the table declaration and the clock guarantee of every state the service reaches:
  the ids are unique (primary key) and below the next value of the sequence, which is
  positive, and no row was created after it was last updated, or updated after now.
\<close>

definition wf_db :: "db \<Rightarrow> bool" where
  "wf_db d =
     (0 < next_id d \<and> distinct (map book_id (rows d))
      \<and> list_all (\<lambda>r. book_id r < next_id d \<and> created_at r \<le> updated_at r
                       \<and> updated_at r \<le> now d) (rows d))"

subsection \<open>Example data\<close>

definition dune :: book where
  "dune =
     \<lparr>book_id = 1, title = ''Dune'', author = ''Herbert'', year = Some 1965,
      genre = Some ''Sci-Fi'', pages = None, price = Some 1250, isbn = None,
      description = None, created_at = 10, updated_at = 10\<rparr>"

definition shelf :: db where
  "shelf = \<lparr>rows = [dune], next_id = 2, now = 20, faults = [], issued = 0, failed = 0\<rparr>"

definition dune_body :: body where
  "dune_body =
     \<lparr>b_title = Val ''Dune'', b_author = Val ''Herbert'', b_year = Val 1965,
      b_genre = Val ''Sci-Fi'', b_pages = Undefined, b_price = Val 1250,
      b_isbn = Undefined, b_description = Undefined\<rparr>"

text \<open>
  A table of five books: two authors differ in case only, one genre is empty and one is
  \<^verbatim>\<open>NULL\<close>, two books have no price.
\<close>

definition library :: db where
  "library =
     \<lparr>rows = [dune,
              dune\<lparr>book_id := 2, title := ''Emma'', author := ''Austen'', genre := Some ''Novel'',
                   price := None\<rparr>,
              dune\<lparr>book_id := 3, title := ''Solaris'', author := ''Lem'', price := Some 999\<rparr>,
              dune\<lparr>book_id := 4, title := ''Notes'', author := ''HERBERT'', genre := Some [],
                   price := None\<rparr>,
              dune\<lparr>book_id := 5, title := ''Ubik'', author := ''Dick'', genre := None,
                   price := Some 1\<rparr>],
      next_id = 6, now = 20, faults = [], issued = 0, failed = 0\<rparr>"

text \<open>
  Two books for the searches with a backslash: the title of one has an underscore, the
  title of the other a backslash.
\<close>

definition snake :: book where
  "snake = dune\<lparr>book_id := 2, title := ''snake_case''\<rparr>"

definition temp :: book where
  "temp = dune\<lparr>book_id := 3, title := ''C:'' @ [CHR 0x5C] @ ''temp''\<rparr>"

definition escapes :: db where
  "escapes = \<lparr>rows = [snake, temp], next_id = 4, now = 20, faults = [], issued = 0, failed = 0\<rparr>"

text \<open>
  A table of 900720 books whose prices, each within \<^verbatim>\<open>DECIMAL(10,2)\<close>, add up to
  90071992547409.93.
\<close>

definition ledger_size :: nat where
  "ledger_size = 900719"

definition ledger_rows :: "book list" where
  "ledger_rows =
     map (\<lambda>i. dune\<lparr>book_id := int i, price := Some 9999999999\<rparr>) [1..<Suc ledger_size]
     @ [dune\<lparr>book_id := int (Suc ledger_size), price := Some 9255641712\<rparr>]"

definition ledger :: db where
  "ledger =
     \<lparr>rows = ledger_rows, next_id = int ledger_size + 2, now = 20, faults = [], issued = 0,
      failed = 0\<rparr>"

subsection \<open>The selection of List as the specification words it\<close>

text \<open>
  The string \<open>s\<close> occurs in \<open>t\<close> as a substring when case is ignored: at some
  position of \<open>t\<close> the next \<open>length s\<close> characters are those of \<open>s\<close> up to case.
\<close>

fun occurs_ci :: "string \<Rightarrow> string \<Rightarrow> bool" where
  "occurs_ci s [] = (s = [])"
| "occurs_ci s (x # xs) = (lower (take (length s) (x # xs)) = lower s \<or> occurs_ci s xs)"

text \<open>A string without the characters that \<^verbatim>\<open>LIKE\<close> reads specially.\<close>

definition plain :: "string \<Rightarrow> bool" where
  "plain s = (\<forall>c\<in>set s. c \<noteq> CHR ''%'' \<and> c \<noteq> CHR ''_'' \<and> c \<noteq> CHR 0x5C)"

text \<open>
  The books List returns according to the specification: with a search string, the
  books in whose title, author or description it occurs; with a genre, the books of
  exactly that genre; with both, the books that satisfy both.
\<close>

definition spec_selected :: "string option \<Rightarrow> string option \<Rightarrow> book \<Rightarrow> bool" where
  "spec_selected search genre_q r =
     ((case search of
         None \<Rightarrow> True
       | Some s \<Rightarrow> s = [] \<or> occurs_ci s (title r) \<or> occurs_ci s (author r)
                   \<or> (case description r of None \<Rightarrow> False | Some t \<Rightarrow> occurs_ci s t))
      \<and> (case genre_q of None \<Rightarrow> True | Some g \<Rightarrow> genre r = Some g))"

text \<open>
  The pattern of a search as claim C10 reads it: the search string between two
  \<^verbatim>\<open>%\<close>, every \<^verbatim>\<open>%\<close> of the string standing for any string, every \<^verbatim>\<open>_\<close> for any
  one character, and every other character for itself.
\<close>

definition spec_wildcard :: "char \<Rightarrow> ltoken" where
  "spec_wildcard c =
     (if c = CHR ''%'' then AnyString else if c = CHR ''_'' then AnyChar else Literal c)"

definition spec_pattern :: "string \<Rightarrow> ltoken list" where
  "spec_pattern s = AnyString # map spec_wildcard s @ [AnyString]"

section \<open>Properties\<close>

subsection \<open>Statements and the connection\<close>

lemma pool_query_reachable:
  "next_ok d \<Longrightarrow>
   pool_query d stmt =
     (case stmt (d\<lparr>faults := tl (faults d), issued := issued d + 1\<rparr>) of
        Inl e \<Rightarrow> (Inl e, d\<lparr>faults := tl (faults d), issued := issued d + 1,
                               failed := failed d + 1\<rparr>)
      | Inr (a, d2) \<Rightarrow> (Inr a, d2))"
  by (cases "faults d") (simp_all add: pool_query_def next_ok_def Let_def split: sum.splits)

lemma catch_500_response [simp]: "catch_500 msg (Inr r, d) = (r, d)"
  by (simp add: catch_500_def)

lemma catch_500_error [simp]: "catch_500 msg (Inl e, d) = (respond 500 (Error msg), d)"
  by (simp add: catch_500_def)

lemma then_do_result [simp]: "then_do (Inr x, d) f = f x d"
  by (simp add: then_do_def)

lemma then_do_error [simp]: "then_do (Inl e, d) f = (Inl e, d)"
  by (simp add: then_do_def)

lemma falsy_str: "\<not> truthy_str v \<longleftrightarrow> v \<in> {Undefined, Null, Val []}"
  by (cases v) (simp_all add: truthy_str_def)

lemma falsy_num: "\<not> truthy_num v \<longleftrightarrow> v \<in> {Undefined, Null, Val 0}"
  by (cases v) (simp_all add: truthy_num_def)

subsection \<open>Create validates before it reaches the store\<close>

text \<open>
  Claim C1. A Create request whose title or author is missing or empty (or
  \<^verbatim>\<open>null\<close>) is answered with the client error 400 before any statement is sent: the
  store comes back exactly as it was, with the same rows and no statement issued, so
  the total count of Stats is the same before and after.
\<close>

theorem create_rejects_missing_title_or_author:
  assumes "b_title b \<in> {Undefined, Null, Val []} \<or> b_author b \<in> {Undefined, Null, Val []}"
  shows "create_book d b = (respond 400 (Error ''Title and author are required''), d)
       \<and> rows (snd (create_book d b)) = rows d
       \<and> issued (snd (create_book d b)) = issued d
       \<and> fst (get_stats (snd (create_book d b))) = fst (get_stats d)"
proof -
  from assms have "\<not> truthy_str (b_title b) \<or> \<not> truthy_str (b_author b)"
    by (simp only: falsy_str)
  then have "create_book d b = (respond 400 (Error ''Title and author are required''), d)"
    by (auto simp: create_book_def)
  then show ?thesis by simp
qed

theorem create_rejects_missing_title_or_author_witness:
  "create_book shelf (dune_body\<lparr>b_title := Undefined\<rparr>)
     = (respond 400 (Error ''Title and author are required''), shelf)
   \<and> create_book shelf (dune_body\<lparr>b_author := Val []\<rparr>)
     = (respond 400 (Error ''Title and author are required''), shelf)
   \<and> rows (snd (create_book shelf (dune_body\<lparr>b_title := Undefined\<rparr>))) = [dune]"
  using create_rejects_missing_title_or_author [of "dune_body\<lparr>b_title := Undefined\<rparr>" shelf]
    create_rejects_missing_title_or_author [of "dune_body\<lparr>b_author := Val []\<rparr>" shelf]
  by (simp add: dune_body_def shelf_def)

subsection \<open>Reading a path parameter as an id\<close>

lemma int4in_no_digit: "\<not> list_ex is_digit idp \<Longrightarrow> int4in idp = Inl InvalidInteger"
proof -
  assume nd: "\<not> list_ex is_digit idp"
  define t where "t = dropWhile is_space idp"
  define u where "u = (if t \<noteq> [] \<and> (hd t = CHR ''-'' \<or> hd t = CHR ''+'') then tl t else t)"
  have "set t \<subseteq> set idp" unfolding t_def by (meson set_dropWhileD subsetI)
  moreover have "set u \<subseteq> set t" unfolding u_def by (cases t) auto
  ultimately have "\<forall>c\<in>set u. \<not> is_digit c" using nd by (auto simp: list_ex_iff)
  then have "takeWhile is_digit u = []" by (cases u) auto
  moreover have "int4in idp =
     (if takeWhile is_digit u = [] \<or> \<not> list_all is_space (dropWhile is_digit u)
      then Inl InvalidInteger
      else int4 (if t \<noteq> [] \<and> hd t = CHR ''-'' then - digits_value (takeWhile is_digit u)
                 else digits_value (takeWhile is_digit u)))"
    by (simp only: int4in_def Let_def u_def t_def)
  ultimately show ?thesis by simp
qed

lemma int4in_abc: "int4in ''abc'' = Inl InvalidInteger"
  by (simp add: int4in_def is_space_def is_digit_def)

lemma int4in_large: "int4in ''2147483648'' = Inl OutOfRange"
  by (simp add: int4in_def is_space_def is_digit_def digits_value_def digit_val_def int4_def)

lemma int4in_huge: "int4in ''99999999999'' = Inl OutOfRange"
  by (simp add: int4in_def is_space_def is_digit_def digits_value_def digit_val_def int4_def)

lemma int4in_7: "int4in ''7'' = Inr 7"
  by (simp add: int4in_def is_space_def is_digit_def digits_value_def digit_val_def int4_def)

lemma int4in_1: "int4in ''1'' = Inr 1"
  by (simp add: int4in_def is_space_def is_digit_def digits_value_def digit_val_def int4_def)

lemma next_ok_shelf: "next_ok shelf" by (simp add: next_ok_def shelf_def)

lemma next_ok_library: "next_ok library" by (simp add: next_ok_def library_def)

subsection \<open>Get and Delete when the store is reachable\<close>

lemma get_book_reachable:
  assumes "next_ok d"
  shows "get_book d idp =
     (case int4in idp of
        Inl e \<Rightarrow> (respond 500 (Error ''Failed to fetch book''),
                   d\<lparr>faults := tl (faults d), issued := issued d + 1, failed := failed d + 1\<rparr>)
      | Inr i \<Rightarrow>
          (if filter (\<lambda>r. book_id r = i) (rows d) = []
           then respond 404 (Error ''Book not found'')
           else respond 200 (first_row (filter (\<lambda>r. book_id r = i) (rows d))),
           d\<lparr>faults := tl (faults d), issued := issued d + 1\<rparr>))"
  by (simp add: get_book_def pool_query_reachable [OF assms] sql_select_by_id_def bind_err_def
      split: sum.splits)

lemma delete_book_reachable:
  assumes "next_ok d"
  shows "delete_book d idp =
     (case int4in idp of
        Inl e \<Rightarrow> (respond 500 (Error ''Failed to delete book''),
                   d\<lparr>faults := tl (faults d), issued := issued d + 1, failed := failed d + 1\<rparr>)
      | Inr i \<Rightarrow>
          (if filter (\<lambda>r. book_id r = i) (rows d) = []
           then respond 404 (Error ''Book not found'')
           else respond 200 (Message ''Book deleted successfully''),
           d\<lparr>rows := filter (\<lambda>r. book_id r \<noteq> i) (rows d),
             faults := tl (faults d), issued := issued d + 1\<rparr>))"
  by (simp add: delete_book_def pool_query_reachable [OF assms] sql_delete_def bind_err_def
      split: sum.splits)

lemma filter_no_match: "i \<notin> book_id ` set rs \<Longrightarrow> filter (\<lambda>r. book_id r = i) rs = []"
  by (induction rs) auto

lemma filter_match: "r \<in> set rs \<Longrightarrow> filter (\<lambda>x. book_id x = book_id r) rs \<noteq> []"
  by (induction rs) auto

lemma filter_keeps_all: "i \<notin> book_id ` set rs \<Longrightarrow> filter (\<lambda>r. book_id r \<noteq> i) rs = rs"
  by (induction rs) auto

lemma first_row_filter:
  "filter P rs \<noteq> [] \<Longrightarrow> \<exists>r\<in>set rs. P r \<and> first_row (filter P rs) = Book r"
  by (induction rs) (auto simp: first_row_def)

lemma filter_other_ids:
  "distinct (map book_id rs) \<Longrightarrow> r \<in> set rs \<Longrightarrow>
   filter (\<lambda>x. book_id x \<noteq> book_id r) rs = remove1 r rs"
proof (induction rs)
  case Nil
  then show ?case by simp
next
  case (Cons a rs)
  show ?case
  proof (cases "a = r")
    case True
    with Cons.prems have "book_id r \<notin> book_id ` set rs" by auto
    then have "filter (\<lambda>x. book_id x \<noteq> book_id r) rs = rs"
      by (rule filter_keeps_all)
    with True show ?thesis by simp
  next
    case False
    with Cons.prems have "r \<in> set rs" by simp
    moreover from this Cons.prems have "book_id a \<noteq> book_id r" by auto
    ultimately show ?thesis using Cons False by simp
  qed
qed

lemma delete_book_confirmed:
  assumes "fst (delete_book d idp) = respond 200 (Message ''Book deleted successfully'')"
  shows "\<exists>i. int4in idp = Inr i \<and> i \<in> book_id ` set (rows d)
            \<and> rows (snd (delete_book d idp)) = filter (\<lambda>r. book_id r \<noteq> i) (rows d)"
proof (cases "int4in idp")
  case (Inl e)
  with assms show ?thesis
    by (simp add: delete_book_def pool_query_def sql_delete_def bind_err_def Let_def respond_def
        split: if_splits)
next
  case (Inr i)
  have "filter (\<lambda>r. book_id r = i) (rows d) \<noteq> []"
    using assms Inr
    by (auto simp: delete_book_def pool_query_def sql_delete_def bind_err_def Let_def respond_def
        split: if_splits)
  then have "i \<in> book_id ` set (rows d)"
    using filter_no_match by blast
  moreover have "rows (snd (delete_book d idp)) = filter (\<lambda>r. book_id r \<noteq> i) (rows d)"
    using assms Inr
    by (auto simp: delete_book_def pool_query_def sql_delete_def bind_err_def Let_def respond_def
        split: if_splits)
  ultimately show ?thesis using Inr by simp
qed

text \<open>
  Claim C3 says that Get answers 404 for every id that is not numeric or matches no
  record. At the id \<^verbatim>\<open>abc\<close> the statement fails, because the parameter is not an
  integer, and the handler answers 500.
\<close>

theorem get_book_counterexample:
  "fst (get_book shelf ''abc'') = respond 500 (Error ''Failed to fetch book'')
   \<and> status (fst (get_book shelf ''abc'')) \<noteq> 404"
  by (simp add: get_book_reachable [OF next_ok_shelf] int4in_abc respond_def)

text \<open>
  Claim C3, amended. With the store reachable, Get hands the id to the store, which
  reads it as a 32-bit \<^verbatim>\<open>INTEGER\<close>. An id that the store reads as a 32-bit
  \<^verbatim>\<open>INTEGER\<close> and that matches no record is answered with 404, and one that matches a
  record with that record. An id that the store cannot read as a 32-bit \<^verbatim>\<open>INTEGER\<close>,
  because it is not an integer literal, as is every id without a digit, or because the
  integer is out of range, as is 2147483648, makes the statement fail, and the answer is
  the internal error 500, not 404.
\<close>

theorem get_book_not_found_or_rejected:
  assumes "next_ok d"
  shows "(int4in idp = Inr i \<and> i \<notin> book_id ` set (rows d)
            \<longrightarrow> fst (get_book d idp) = respond 404 (Error ''Book not found''))
       \<and> (int4in idp = Inr i \<and> i \<in> book_id ` set (rows d)
            \<longrightarrow> (\<exists>r\<in>set (rows d). book_id r = i \<and> fst (get_book d idp) = respond 200 (Book r)))
       \<and> (int4in idp = Inl e \<or> \<not> list_ex is_digit idp
            \<longrightarrow> fst (get_book d idp) = respond 500 (Error ''Failed to fetch book''))"
proof (intro conjI impI)
  assume "int4in idp = Inr i \<and> i \<notin> book_id ` set (rows d)"
  then show "fst (get_book d idp) = respond 404 (Error ''Book not found'')"
    by (simp add: get_book_reachable [OF assms] filter_no_match)
next
  assume a: "int4in idp = Inr i \<and> i \<in> book_id ` set (rows d)"
  then have ne: "filter (\<lambda>r. book_id r = i) (rows d) \<noteq> []"
    using filter_match by auto
  from first_row_filter [OF ne] obtain r where
    "r \<in> set (rows d)" "book_id r = i" "first_row (filter (\<lambda>r. book_id r = i) (rows d)) = Book r"
    by blast
  with a ne have "r \<in> set (rows d) \<and> book_id r = i \<and> fst (get_book d idp) = respond 200 (Book r)"
    by (simp add: get_book_reachable [OF assms])
  then show
    "\<exists>r\<in>set (rows d). book_id r = i \<and> fst (get_book d idp) = respond 200 (Book r)"
    by blast
next
  assume "int4in idp = Inl e \<or> \<not> list_ex is_digit idp"
  then obtain e' where "int4in idp = Inl e'"
    using int4in_no_digit by blast
  then show "fst (get_book d idp) = respond 500 (Error ''Failed to fetch book'')"
    by (simp add: get_book_reachable [OF assms])
qed

theorem get_book_not_found_or_rejected_witness:
  "next_ok shelf
   \<and> fst (get_book shelf ''7'') = respond 404 (Error ''Book not found'')
   \<and> fst (get_book shelf ''1'') = respond 200 (Book dune)
   \<and> fst (get_book shelf ''abc'') = respond 500 (Error ''Failed to fetch book'')
   \<and> int4in ''2147483648'' = Inl OutOfRange
   \<and> fst (get_book shelf ''2147483648'') = respond 500 (Error ''Failed to fetch book'')"
  using get_book_not_found_or_rejected [OF next_ok_shelf, of "''7''" 7]
    get_book_not_found_or_rejected [OF next_ok_shelf, of "''1''" 1]
    get_book_not_found_or_rejected [OF next_ok_shelf, of "''abc''" _ InvalidInteger]
    get_book_not_found_or_rejected [OF next_ok_shelf, of "''2147483648''" _ OutOfRange]
  by (simp add: next_ok_shelf int4in_abc int4in_7 int4in_1 int4in_large)
     (simp add: shelf_def dune_def)

text \<open>
  Claim C8 says that Delete of an id that does not exist answers not-found, for every
  id. The ids \<^verbatim>\<open>abc\<close> and \<^verbatim>\<open>99999999999\<close> are the id of no record; the store
  cannot read them as a 32-bit \<^verbatim>\<open>INTEGER\<close>, the statement fails and Delete answers
  500.
\<close>

theorem delete_counterexample:
  "fst (delete_book shelf ''abc'') = respond 500 (Error ''Failed to delete book'')
   \<and> status (fst (delete_book shelf ''abc'')) \<noteq> 404
   \<and> fst (delete_book shelf ''99999999999'') = respond 500 (Error ''Failed to delete book'')
   \<and> status (fst (delete_book shelf ''99999999999'')) \<noteq> 404
   \<and> rows shelf = [dune] \<and> book_id dune = 1"
  by (simp add: delete_book_reachable [OF next_ok_shelf] int4in_abc int4in_huge respond_def)
     (simp add: shelf_def dune_def)

text \<open>
  Claim C8, amended. When Delete confirms, the store has read its id as a 32-bit
  \<^verbatim>\<open>INTEGER\<close>, exactly the record with that id is gone from the table (the primary key
  makes it one record), and a later Get of the same id, the store being reachable,
  answers 404. With the store reachable, Delete of an id that the store reads as a
  32-bit \<^verbatim>\<open>INTEGER\<close> and that matches no record answers 404 itself and leaves the table
  and the sequence as they were; Delete of an id that the store cannot read as a 32-bit
  \<^verbatim>\<open>INTEGER\<close> answers with the internal error 500, and leaves the table and the
  sequence as they were too.
\<close>

theorem delete_then_get_not_found:
  "(fst (delete_book d idp) = respond 200 (Message ''Book deleted successfully'')
      \<longrightarrow> (\<exists>i. int4in idp = Inr i
             \<and> rows (snd (delete_book d idp)) = filter (\<lambda>r. book_id r \<noteq> i) (rows d)
             \<and> (\<exists>r\<in>set (rows d). book_id r = i
                  \<and> (distinct (map book_id (rows d))
                       \<longrightarrow> rows (snd (delete_book d idp)) = remove1 r (rows d))))
        \<and> (\<forall>d2. rows d2 = rows (snd (delete_book d idp)) \<and> next_ok d2
              \<longrightarrow> fst (get_book d2 idp) = respond 404 (Error ''Book not found'')))
   \<and> (next_ok d \<and> int4in idp = Inr j \<and> j \<notin> book_id ` set (rows d)
      \<longrightarrow> fst (delete_book d idp) = respond 404 (Error ''Book not found'')
        \<and> rows (snd (delete_book d idp)) = rows d
        \<and> next_id (snd (delete_book d idp)) = next_id d)
   \<and> (next_ok d \<and> int4in idp = Inl e
      \<longrightarrow> fst (delete_book d idp) = respond 500 (Error ''Failed to delete book'')
        \<and> rows (snd (delete_book d idp)) = rows d
        \<and> next_id (snd (delete_book d idp)) = next_id d)"
proof (intro conjI impI)
  assume ok: "fst (delete_book d idp) = respond 200 (Message ''Book deleted successfully'')"
  from delete_book_confirmed [OF ok] obtain i where i: "int4in idp = Inr i"
    "i \<in> book_id ` set (rows d)"
    "rows (snd (delete_book d idp)) = filter (\<lambda>r. book_id r \<noteq> i) (rows d)"
    by blast
  from i(2) obtain r where r: "r \<in> set (rows d)" "book_id r = i" by auto
  have "distinct (map book_id (rows d)) \<longrightarrow> rows (snd (delete_book d idp)) = remove1 r (rows d)"
    using filter_other_ids [of "rows d" r] r i(3) by simp
  with i r show "\<exists>i. int4in idp = Inr i
             \<and> rows (snd (delete_book d idp)) = filter (\<lambda>r. book_id r \<noteq> i) (rows d)
             \<and> (\<exists>r\<in>set (rows d). book_id r = i
                  \<and> (distinct (map book_id (rows d))
                       \<longrightarrow> rows (snd (delete_book d idp)) = remove1 r (rows d)))"
    by blast
  show "\<forall>d2. rows d2 = rows (snd (delete_book d idp)) \<and> next_ok d2
              \<longrightarrow> fst (get_book d2 idp) = respond 404 (Error ''Book not found'')"
  proof (intro allI impI)
    fix d2 assume d2: "rows d2 = rows (snd (delete_book d idp)) \<and> next_ok d2"
    then have "filter (\<lambda>r. book_id r = i) (rows d2) = []"
      by (simp add: i(3))
    with d2 i(1) show "fst (get_book d2 idp) = respond 404 (Error ''Book not found'')"
      by (simp add: get_book_reachable)
  qed
next
  assume a: "next_ok d \<and> int4in idp = Inr j \<and> j \<notin> book_id ` set (rows d)"
  then have none: "filter (\<lambda>r. book_id r = j) (rows d) = []"
    by (simp add: filter_no_match)
  from a have keep: "filter (\<lambda>r. book_id r \<noteq> j) (rows d) = rows d"
    by (simp add: filter_keeps_all)
  from a none keep show "fst (delete_book d idp) = respond 404 (Error ''Book not found'')"
    by (simp add: delete_book_reachable)
  from a none keep show "rows (snd (delete_book d idp)) = rows d"
    by (simp add: delete_book_reachable)
  from a none keep show "next_id (snd (delete_book d idp)) = next_id d"
    by (simp add: delete_book_reachable)
next
  assume a: "next_ok d \<and> int4in idp = Inl e"
  then show "fst (delete_book d idp) = respond 500 (Error ''Failed to delete book'')"
    by (simp add: delete_book_reachable)
  from a show "rows (snd (delete_book d idp)) = rows d"
    by (simp add: delete_book_reachable)
  from a show "next_id (snd (delete_book d idp)) = next_id d"
    by (simp add: delete_book_reachable)
qed

theorem delete_then_get_not_found_witness:
  "fst (delete_book shelf ''1'') = respond 200 (Message ''Book deleted successfully'')
   \<and> rows (snd (delete_book shelf ''1'')) = []
   \<and> fst (get_book (tick 5 (snd (delete_book shelf ''1''))) ''1'')
       = respond 404 (Error ''Book not found'')
   \<and> fst (delete_book shelf ''7'') = respond 404 (Error ''Book not found'')
   \<and> rows (snd (delete_book shelf ''7'')) = [dune]
   \<and> fst (delete_book shelf ''2147483648'') = respond 500 (Error ''Failed to delete book'')
   \<and> rows (snd (delete_book shelf ''2147483648'')) = [dune]"
proof -
  have del: "fst (delete_book shelf ''1'') = respond 200 (Message ''Book deleted successfully'')"
    by (simp add: delete_book_reachable [OF next_ok_shelf] int4in_1) (simp add: shelf_def dune_def)
  have after: "rows (snd (delete_book shelf ''1'')) = []"
    by (simp add: delete_book_reachable [OF next_ok_shelf] int4in_1) (simp add: shelf_def dune_def)
  have later: "rows (tick 5 (snd (delete_book shelf ''1''))) = rows (snd (delete_book shelf ''1''))
      \<and> next_ok (tick 5 (snd (delete_book shelf ''1'')))"
    by (simp add: delete_book_reachable [OF next_ok_shelf] int4in_1 tick_def next_ok_def)
       (simp add: shelf_def)
  have absent: "next_ok shelf \<and> int4in ''7'' = Inr 7 \<and> 7 \<notin> book_id ` set (rows shelf)"
    by (simp add: next_ok_shelf int4in_7) (simp add: shelf_def dune_def)
  have unread: "next_ok shelf \<and> int4in ''2147483648'' = Inl OutOfRange"
    by (simp add: next_ok_shelf int4in_large)
  from delete_then_get_not_found [of shelf "''1''" 7 OutOfRange] del later
  have "fst (get_book (tick 5 (snd (delete_book shelf ''1''))) ''1'')
       = respond 404 (Error ''Book not found'')" by blast
  moreover from delete_then_get_not_found [of shelf "''7''" 7 OutOfRange] absent
  have "fst (delete_book shelf ''7'') = respond 404 (Error ''Book not found'')
        \<and> rows (snd (delete_book shelf ''7'')) = rows shelf" by blast
  moreover from delete_then_get_not_found [of shelf "''2147483648''" 7 OutOfRange] unread
  have "fst (delete_book shelf ''2147483648'') = respond 500 (Error ''Failed to delete book'')
        \<and> rows (snd (delete_book shelf ''2147483648'')) = rows shelf" by blast
  ultimately show ?thesis using del after by (simp add: shelf_def)
qed

subsection \<open>Matching a search string\<close>

lemma ilike_any [simp]: "ilike_match [AnyString] t"
  by (induction t) simp_all

lemma ilike_literals:
  "ilike_match (map Literal s @ [AnyString]) t \<longleftrightarrow> lower (take (length s) t) = lower s"
proof (induction s arbitrary: t)
  case Nil
  then show ?case by (simp add: lower_def)
next
  case (Cons c s)
  show ?case
  proof (cases t)
    case Nil
    then show ?thesis by (simp add: lower_def)
  next
    case (Cons x xs)
    with Cons.IH [of xs] show ?thesis by (simp add: lower_def eq_commute)
  qed
qed

lemma ilike_contains:
  "ilike_match (AnyString # map Literal s @ [AnyString]) t \<longleftrightarrow> occurs_ci s t"
proof (induction t)
  case Nil
  then show ?case using ilike_literals [of s "[]"] by (simp add: lower_def)
next
  case (Cons x t)
  then show ?case using ilike_literals [of s "x # t"] by simp
qed

lemma lower_length: "lower w = lower s \<Longrightarrow> length w = length s"
  unfolding lower_def by (rule map_eq_imp_length_eq)

lemma occurs_ci_iff: "occurs_ci s t \<longleftrightarrow> (\<exists>u w v. t = u @ w @ v \<and> lower w = lower s)"
proof (induction t)
  case Nil
  show ?case
  proof
    assume "occurs_ci s []"
    then have "[] = [] @ s @ [] \<and> lower s = lower s" by simp
    then show "\<exists>u w v. [] = u @ w @ v \<and> lower w = lower s" by blast
  next
    assume "\<exists>u w v. [] = u @ w @ v \<and> lower w = lower s"
    then obtain w where "w = []" "lower w = lower s" by auto
    then have "length s = 0" using lower_length by fastforce
    then show "occurs_ci s []" by simp
  qed
next
  case (Cons x t)
  show ?case
  proof
    assume "occurs_ci s (x # t)"
    then consider "lower (take (length s) (x # t)) = lower s" | "occurs_ci s t" by auto
    then show "\<exists>u w v. x # t = u @ w @ v \<and> lower w = lower s"
    proof cases
      case 1
      have "x # t = [] @ take (length s) (x # t) @ drop (length s) (x # t)" by simp
      with 1 show ?thesis by blast
    next
      case 2
      with Cons obtain u w v where "t = u @ w @ v" "lower w = lower s" by blast
      then have "x # t = (x # u) @ w @ v \<and> lower w = lower s" by simp
      then show ?thesis by blast
    qed
  next
    assume "\<exists>u w v. x # t = u @ w @ v \<and> lower w = lower s"
    then obtain u w v where uwv: "x # t = u @ w @ v" "lower w = lower s" by blast
    show "occurs_ci s (x # t)"
    proof (cases u)
      case Nil
      from uwv(2) have "length w = length s" by (rule lower_length)
      with uwv Nil have "take (length s) (x # t) = w" by simp
      with uwv(2) show ?thesis by simp
    next
      case (Cons y u')
      with uwv have "t = u' @ w @ v" by simp
      with uwv(2) have "occurs_ci s t" using Cons.IH by blast
      then show ?thesis by simp
    qed
  qed
qed

lemma like_tokens_plain:
  "plain s \<Longrightarrow> like_tokens (s @ rest) = map_option ((@) (map Literal s)) (like_tokens rest)"
proof (induction s)
  case Nil
  then show ?case by (simp add: option.map_ident)
next
  case (Cons c s)
  then have "plain s" and "c \<noteq> CHR ''%''" "c \<noteq> CHR ''_''" "c \<noteq> CHR 0x5C"
    by (simp_all add: plain_def)
  with Cons.IH show ?case by (simp add: option.map_comp comp_def)
qed

lemma like_tokens_search:
  "plain s \<Longrightarrow> like_tokens (''%'' @ s @ ''%'') = Some (AnyString # map Literal s @ [AnyString])"
  using like_tokens_plain [of s "''%''"] by simp

lemma like_tokens_total: "like_tokens (s @ ''%'') \<noteq> None"
proof (induction s rule: like_tokens.induct)
  case 1
  show ?case by simp
next
  case (2 c cs)
  show ?case
  proof (cases "c = CHR 0x5C")
    case True
    show ?thesis
    proof (cases cs)
      case Nil
      with True show ?thesis by simp
    next
      case (Cons e es)
      with True "2.IH"(1) [of e es] show ?thesis by simp
    qed
  next
    case False
    with "2.IH"(2,3,4) show ?thesis by (cases "c = CHR ''%''"; cases "c = CHR ''_''") simp_all
  qed
qed

lemma ilike_any_string:
  "ilike_match (AnyString # ps) t \<longleftrightarrow> (\<exists>w v. t = w @ v \<and> ilike_match ps v)"
proof (induction t)
  case Nil
  show ?case by simp
next
  case (Cons x xs)
  show ?case
  proof
    assume "ilike_match (AnyString # ps) (x # xs)"
    then consider "ilike_match ps (x # xs)" | "ilike_match (AnyString # ps) xs" by auto
    then show "\<exists>w v. x # xs = w @ v \<and> ilike_match ps v"
    proof cases
      case 1
      then have "x # xs = [] @ (x # xs) \<and> ilike_match ps (x # xs)" by simp
      then show ?thesis by blast
    next
      case 2
      with Cons obtain w v where "xs = w @ v" "ilike_match ps v" by blast
      then have "x # xs = (x # w) @ v \<and> ilike_match ps v" by simp
      then show ?thesis by blast
    qed
  next
    assume "\<exists>w v. x # xs = w @ v \<and> ilike_match ps v"
    then obtain w v where wv: "x # xs = w @ v" "ilike_match ps v" by blast
    show "ilike_match (AnyString # ps) (x # xs)"
    proof (cases w)
      case Nil
      with wv have "ilike_match ps (x # xs)" by simp
      then show ?thesis by simp
    next
      case (Cons y w')
      with wv have "xs = w' @ v" by simp
      with wv(2) have "ilike_match (AnyString # ps) xs" using Cons.IH by blast
      then show ?thesis by simp
    qed
  qed
qed

lemma ilike_any_char:
  "ilike_match (AnyChar # ps) t \<longleftrightarrow> (\<exists>c v. t = c # v \<and> ilike_match ps v)"
  by (cases t) simp_all

lemma ilike_literal:
  "ilike_match (Literal c # ps) t \<longleftrightarrow>
     (\<exists>x v. t = x # v \<and> lower_char x = lower_char c \<and> ilike_match ps v)"
  by (cases t) simp_all

lemma like_tokens_unescaped:
  "CHR 0x5C \<notin> set s \<Longrightarrow>
   like_tokens (s @ rest) = map_option ((@) (map spec_wildcard s)) (like_tokens rest)"
proof (induction s)
  case Nil
  then show ?case by (simp add: option.map_ident)
next
  case (Cons c s)
  from Cons.prems have c: "c \<noteq> CHR 0x5C" and s: "CHR 0x5C \<notin> set s" by auto
  from Cons.IH [OF s] c show ?case
    by (simp add: option.map_comp comp_def spec_wildcard_def)
qed

lemma search_pattern_tokens:
  "CHR 0x5C \<notin> set s \<Longrightarrow> like_tokens (''%'' @ s @ ''%'') = Some (spec_pattern s)"
  using like_tokens_unescaped [of s "''%''"] by (simp add: spec_pattern_def)

lemma search_pattern_escape:
  assumes "CHR 0x5C \<notin> set u"
  shows "like_tokens (''%'' @ (u @ [CHR 0x5C, c] @ v) @ ''%'')
     = map_option (\<lambda>vs. AnyString # map spec_wildcard u @ Literal c # vs)
         (like_tokens (v @ ''%''))"
  using like_tokens_unescaped [OF assms, of "CHR 0x5C # c # v @ ''%''"]
  by (simp add: option.map_comp comp_def)

lemma search_pattern_last_escape:
  assumes "CHR 0x5C \<notin> set u"
  shows "like_tokens (''%'' @ (u @ [CHR 0x5C]) @ ''%'')
     = Some (AnyString # map spec_wildcard u @ [Literal CHR ''%''])"
  using like_tokens_unescaped [OF assms, of "[CHR 0x5C, CHR ''%'']"]
  by simp

subsection \<open>List\<close>

lemma and3_true [simp]: "and3 a b = Some True \<longleftrightarrow> a = Some True \<and> b = Some True"
  by (auto simp: and3_def)

lemma or3_true [simp]: "or3 a b = Some True \<longleftrightarrow> a = Some True \<or> b = Some True"
  by (auto simp: or3_def)

lemma where_clause_all:
  "where_clause conds r \<longleftrightarrow> (\<forall>c\<in>set conds. condition_value c r = Some True)"
  unfolding where_clause_def by (induction conds) auto

lemma search_pattern_ok: "\<not> bad_pattern (SearchLike (''%'' @ s @ ''%''))"
  using like_tokens_total [of s] by simp

lemma list_conditions_ok: "\<not> list_ex bad_pattern (list_conditions search genre_q)"
proof -
  have "\<not> bad_pattern c" if "c \<in> set (list_conditions search genre_q)" for c
  proof -
    from that consider s where "c = SearchLike (''%'' @ s @ ''%'')" | g where "c = GenreIs g"
      by (auto simp: list_conditions_def split: option.splits if_splits)
    then show ?thesis
    proof cases
      case 1
      then show ?thesis by (simp only: search_pattern_ok not_False_eq_True)
    next
      case 2
      then show ?thesis by simp
    qed
  qed
  then show ?thesis by (auto simp: list_ex_iff)
qed

lemma list_books_reachable:
  assumes "next_ok d"
  shows "list_books d search genre_q =
     (respond 200 (Books (sort_key (\<lambda>r. - int (created_at r))
         (filter (where_clause (list_conditions search genre_q)) (rows d)))),
      d\<lparr>faults := tl (faults d), issued := issued d + 1\<rparr>)"
  by (simp add: list_books_def pool_query_reachable [OF assms] sql_select_books_def
      list_conditions_ok)

lemma search_condition_plain:
  assumes "plain s"
  shows "condition_value (SearchLike (''%'' @ s @ ''%'')) r = Some True \<longleftrightarrow>
     occurs_ci s (title r) \<or> occurs_ci s (author r)
     \<or> (\<exists>t. description r = Some t \<and> occurs_ci s t)"
proof -
  have "condition_value (SearchLike (''%'' @ s @ ''%'')) r =
      or3 (or3 (Some (occurs_ci s (title r))) (Some (occurs_ci s (author r))))
          (map_option (occurs_ci s) (description r))"
    using like_tokens_search [OF assms] ilike_contains [of s]
    by (cases "description r") simp_all
  then show ?thesis by (cases "description r") auto
qed

lemma search_condition:
  assumes "like_tokens (''%'' @ s @ ''%'') = Some ts"
  shows "condition_value (SearchLike (''%'' @ s @ ''%'')) r = Some True \<longleftrightarrow>
     ilike_match ts (title r) \<or> ilike_match ts (author r)
     \<or> (\<exists>t. description r = Some t \<and> ilike_match ts t)"
proof -
  have "condition_value (SearchLike (''%'' @ s @ ''%'')) r =
      or3 (or3 (Some (ilike_match ts (title r))) (Some (ilike_match ts (author r))))
          (map_option (ilike_match ts) (description r))"
    by (simp only: condition_value.simps assms option.case)
  then show ?thesis by (cases "description r") auto
qed

lemma list_books_search:
  assumes "next_ok d" "s \<noteq> []" "like_tokens (''%'' @ s @ ''%'') = Some ts"
  shows "\<exists>bs. fst (list_books d (Some s) genre_q) = respond 200 (Books bs)
     \<and> (\<forall>r. r \<in> set bs \<longleftrightarrow>
            r \<in> set (rows d)
            \<and> (ilike_match ts (title r) \<or> ilike_match ts (author r)
               \<or> (\<exists>t. description r = Some t \<and> ilike_match ts t))
            \<and> (\<forall>g. genre_q = Some g \<and> g \<noteq> [] \<longrightarrow> genre r = Some g))"
proof -
  let ?bs = "sort_key (\<lambda>r. - int (created_at r))
         (filter (where_clause (list_conditions (Some s) genre_q)) (rows d))"
  define c where "c = SearchLike (''%'' @ s @ ''%'')"
  have conds: "list_conditions (Some s) genre_q =
      c # (case genre_q of None \<Rightarrow> [] | Some g \<Rightarrow> if g \<noteq> [] then [GenreIs g] else [])"
    using assms(2) by (simp add: list_conditions_def c_def)
  have cv: "condition_value c r = Some True \<longleftrightarrow>
     ilike_match ts (title r) \<or> ilike_match ts (author r)
     \<or> (\<exists>t. description r = Some t \<and> ilike_match ts t)" for r
    unfolding c_def by (rule search_condition [OF assms(3)])
  have sel: "where_clause (list_conditions (Some s) genre_q) r \<longleftrightarrow>
      (ilike_match ts (title r) \<or> ilike_match ts (author r)
               \<or> (\<exists>t. description r = Some t \<and> ilike_match ts t))
      \<and> (\<forall>g. genre_q = Some g \<and> g \<noteq> [] \<longrightarrow> genre r = Some g)" for r
    unfolding conds where_clause_all using cv [of r]
    by (cases genre_q) auto
  have "fst (list_books d (Some s) genre_q) = respond 200 (Books ?bs)"
    by (simp add: list_books_reachable [OF assms(1)])
  moreover have "\<forall>r. r \<in> set ?bs \<longleftrightarrow>
            r \<in> set (rows d)
            \<and> (ilike_match ts (title r) \<or> ilike_match ts (author r)
               \<or> (\<exists>t. description r = Some t \<and> ilike_match ts t))
            \<and> (\<forall>g. genre_q = Some g \<and> g \<noteq> [] \<longrightarrow> genre r = Some g)"
    using sel by simp
  ultimately show ?thesis by blast
qed

lemma next_ok_escapes: "next_ok escapes" by (simp add: next_ok_def escapes_def)

lemma plain_dune: "plain ''dune''" by (simp add: plain_def)

text \<open>
  Claim C4 says that with a search string a book is returned exactly when the string
  occurs in its title, author or description, and with a genre exactly when the genre
  is the same. The search \<^verbatim>\<open>d_ne\<close> returns Dune, in which \<^verbatim>\<open>d_ne\<close> does not
  occur; and a genre that is present but empty returns Dune, whose genre is not empty.
\<close>

theorem list_books_counterexample:
  "fst (list_books shelf (Some ''d_ne'') None) = respond 200 (Books [dune])
   \<and> \<not> spec_selected (Some ''d_ne'') None dune
   \<and> fst (list_books shelf None (Some [])) = respond 200 (Books [dune])
   \<and> \<not> spec_selected None (Some []) dune"
proof -
  have "where_clause (list_conditions (Some ''d_ne'') None) dune"
    by (simp add: where_clause_all list_conditions_def dune_def lower_char_def)
  then have "fst (list_books shelf (Some ''d_ne'') None) = respond 200 (Books [dune])"
    by (simp add: list_books_reachable [OF next_ok_shelf]) (simp add: shelf_def)
  moreover have "\<not> spec_selected (Some ''d_ne'') None dune"
    by (simp add: spec_selected_def dune_def lower_def lower_char_def)
  moreover have "fst (list_books shelf None (Some [])) = respond 200 (Books [dune])"
    by (simp add: list_books_reachable [OF next_ok_shelf] where_clause_all list_conditions_def)
       (simp add: shelf_def)
  moreover have "\<not> spec_selected None (Some []) dune"
    by (simp add: spec_selected_def dune_def)
  ultimately show ?thesis by blast
qed

text \<open>
  Claim C4, amended. With the store reachable and a search string free of the
  characters \<^verbatim>\<open>%\<close>, \<^verbatim>\<open>_\<close> and backslash, List returns exactly the books that
  satisfy both filters: the search, when it is present and not empty, occurs without
  regard to case in the title, the author or the description; the genre, when it is
  present and not empty, is exactly the book's genre. A filter that is missing or empty
  does not restrict the result, so with neither all books are returned.
\<close>

theorem list_books_selects:
  assumes "next_ok d" and "\<forall>s. search = Some s \<longrightarrow> plain s"
  shows "\<exists>bs. fst (list_books d search genre_q) = respond 200 (Books bs)
     \<and> (\<forall>r. r \<in> set bs \<longleftrightarrow>
            r \<in> set (rows d)
            \<and> (\<forall>s. search = Some s \<and> s \<noteq> [] \<longrightarrow>
                  occurs_ci s (title r) \<or> occurs_ci s (author r)
                  \<or> (\<exists>t. description r = Some t \<and> occurs_ci s t))
            \<and> (\<forall>g. genre_q = Some g \<and> g \<noteq> [] \<longrightarrow> genre r = Some g))"
proof -
  let ?bs = "sort_key (\<lambda>r. - int (created_at r))
         (filter (where_clause (list_conditions search genre_q)) (rows d))"
  have sel: "where_clause (list_conditions search genre_q) r \<longleftrightarrow>
      (\<forall>s. search = Some s \<and> s \<noteq> [] \<longrightarrow>
                  occurs_ci s (title r) \<or> occurs_ci s (author r)
                  \<or> (\<exists>t. description r = Some t \<and> occurs_ci s t))
      \<and> (\<forall>g. genre_q = Some g \<and> g \<noteq> [] \<longrightarrow> genre r = Some g)" for r
  proof (cases search)
    case None
    then show ?thesis
      by (cases genre_q) (auto simp: where_clause_all list_conditions_def)
  next
    case (Some s)
    with assms(2) have "plain s" by simp
    from search_condition_plain [OF this, of r] Some show ?thesis
      by (cases genre_q) (auto simp: where_clause_all list_conditions_def)
  qed
  have "fst (list_books d search genre_q) = respond 200 (Books ?bs)"
    by (simp add: list_books_reachable [OF assms(1)])
  moreover have "\<forall>r. r \<in> set ?bs \<longleftrightarrow>
            r \<in> set (rows d)
            \<and> (\<forall>s. search = Some s \<and> s \<noteq> [] \<longrightarrow>
                  occurs_ci s (title r) \<or> occurs_ci s (author r)
                  \<or> (\<exists>t. description r = Some t \<and> occurs_ci s t))
            \<and> (\<forall>g. genre_q = Some g \<and> g \<noteq> [] \<longrightarrow> genre r = Some g)"
    using sel by simp
  ultimately show ?thesis by blast
qed

theorem list_books_selects_witness:
  "next_ok shelf \<and> plain ''dune''
   \<and> (\<exists>bs. fst (list_books shelf (Some ''dune'') (Some ''Sci-Fi'')) = respond 200 (Books bs)
          \<and> dune \<in> set bs)
   \<and> (\<exists>bs. fst (list_books shelf (Some ''dune'') (Some ''sci-fi'')) = respond 200 (Books bs)
          \<and> dune \<notin> set bs)"
proof -
  have p: "\<forall>s. Some ''dune'' = Some s \<longrightarrow> plain s" using plain_dune by simp
  have row: "dune \<in> set (rows shelf)" by (simp add: shelf_def)
  have hit: "occurs_ci ''dune'' (title dune)" by (simp add: dune_def lower_def lower_char_def)
  have g: "genre dune = Some ''Sci-Fi''" by (simp add: dune_def)
  from list_books_selects [OF next_ok_shelf p, of "Some ''Sci-Fi''"] row hit g
  have "\<exists>bs. fst (list_books shelf (Some ''dune'') (Some ''Sci-Fi'')) = respond 200 (Books bs)
          \<and> dune \<in> set bs"
    by auto
  moreover from list_books_selects [OF next_ok_shelf p, of "Some ''sci-fi''"] g
  have "\<exists>bs. fst (list_books shelf (Some ''dune'') (Some ''sci-fi'')) = respond 200 (Books bs)
          \<and> dune \<notin> set bs"
    by auto
  ultimately show ?thesis using next_ok_shelf plain_dune by blast
qed

text \<open>
  Claim C10 says that every \<^verbatim>\<open>%\<close> and \<^verbatim>\<open>_\<close> of the search string is a wildcard and
  not a literal character. After a backslash it is a literal character: the search
  \<^verbatim>\<open>\_\<close> returns the book whose title has an underscore and not the book whose
  title has a backslash and a character after it, the opposite of what the pattern as
  the claim reads it selects.
\<close>

theorem search_counterexample:
  "fst (list_books escapes (Some [CHR 0x5C, CHR ''_'']) None) = respond 200 (Books [snake])
   \<and> rows escapes = [snake, temp]
   \<and> like_tokens (''%'' @ [CHR 0x5C, CHR ''_''] @ ''%'')
       = Some [AnyString, Literal CHR ''_'', AnyString]
   \<and> spec_pattern [CHR 0x5C, CHR ''_''] = [AnyString, Literal CHR 0x5C, AnyChar, AnyString]
   \<and> \<not> ilike_match (spec_pattern [CHR 0x5C, CHR ''_'']) (title snake)
   \<and> \<not> ilike_match (spec_pattern [CHR 0x5C, CHR ''_'']) (author snake)
   \<and> description snake = None
   \<and> ilike_match (spec_pattern [CHR 0x5C, CHR ''_'']) (title temp)"
proof -
  have "where_clause (list_conditions (Some [CHR 0x5C, CHR ''_'']) None) snake"
    by (simp add: where_clause_all list_conditions_def snake_def dune_def lower_char_def)
  moreover have "\<not> where_clause (list_conditions (Some [CHR 0x5C, CHR ''_'']) None) temp"
    by (simp add: where_clause_all list_conditions_def temp_def dune_def lower_char_def or3_def)
  ultimately have
    "fst (list_books escapes (Some [CHR 0x5C, CHR ''_'']) None) = respond 200 (Books [snake])"
    by (simp add: list_books_reachable [OF next_ok_escapes]) (simp add: escapes_def)
  moreover have "rows escapes = [snake, temp]" by (simp add: escapes_def)
  moreover have "like_tokens (''%'' @ [CHR 0x5C, CHR ''_''] @ ''%'')
       = Some [AnyString, Literal CHR ''_'', AnyString]"
    by simp
  moreover have p: "spec_pattern [CHR 0x5C, CHR ''_'']
      = [AnyString, Literal CHR 0x5C, AnyChar, AnyString]"
    by (simp add: spec_pattern_def spec_wildcard_def)
  moreover have "\<not> ilike_match (spec_pattern [CHR 0x5C, CHR ''_'']) (title snake)"
    unfolding p by (simp add: snake_def dune_def lower_char_def)
  moreover have "\<not> ilike_match (spec_pattern [CHR 0x5C, CHR ''_'']) (author snake)"
    unfolding p by (simp add: snake_def dune_def lower_char_def)
  moreover have "description snake = None" by (simp add: snake_def dune_def)
  moreover have "ilike_match (spec_pattern [CHR 0x5C, CHR ''_'']) (title temp)"
    unfolding p by (simp add: temp_def dune_def lower_char_def)
  ultimately show ?thesis by blast
qed

text \<open>
  Claim C10, amended. With the store reachable and a search string that is not empty,
  the string goes into the pattern \<^verbatim>\<open>%search%\<close> as it is, the pattern is a valid
  \<^verbatim>\<open>ILIKE\<close> pattern, and List returns exactly the books whose title, author or
  description matches it and whose genre is the genre asked for, if one is. In a search
  string without a backslash every \<^verbatim>\<open>%\<close> is read as any string and every \<^verbatim>\<open>_\<close> as
  any one character; a backslash makes the character after it a literal one, also the
  \<^verbatim>\<open>%\<close> that the handler appends. A pattern matches a text as follows: "any string"
  takes any part of the text, also none; "any one character" takes one character,
  whichever it is; a literal character takes the same character up to case. So for some
  inputs List returns a book in which the search string does not occur.
\<close>

theorem search_wildcards:
  assumes "next_ok d" and "s \<noteq> []"
  shows "\<exists>ts bs. like_tokens (''%'' @ s @ ''%'') = Some ts
     \<and> fst (list_books d (Some s) genre_q) = respond 200 (Books bs)
     \<and> (\<forall>r. r \<in> set bs \<longleftrightarrow>
            r \<in> set (rows d)
            \<and> (ilike_match ts (title r) \<or> ilike_match ts (author r)
               \<or> (\<exists>t. description r = Some t \<and> ilike_match ts t))
            \<and> (\<forall>g. genre_q = Some g \<and> g \<noteq> [] \<longrightarrow> genre r = Some g))
     \<and> (CHR 0x5C \<notin> set s \<longrightarrow> ts = spec_pattern s)
     \<and> (\<forall>u c v. s = u @ [CHR 0x5C, c] @ v \<and> CHR 0x5C \<notin> set u \<longrightarrow>
           (\<exists>vs. like_tokens (v @ ''%'') = Some vs
                \<and> ts = AnyString # map spec_wildcard u @ Literal c # vs))
     \<and> (\<forall>u. s = u @ [CHR 0x5C] \<and> CHR 0x5C \<notin> set u \<longrightarrow>
           ts = AnyString # map spec_wildcard u @ [Literal CHR ''%''])
     \<and> (\<forall>ps t. ilike_match (AnyString # ps) t \<longleftrightarrow> (\<exists>w v. t = w @ v \<and> ilike_match ps v))
     \<and> (\<forall>ps t. ilike_match (AnyChar # ps) t \<longleftrightarrow> (\<exists>c v. t = c # v \<and> ilike_match ps v))
     \<and> (\<forall>ps t c. ilike_match (Literal c # ps) t \<longleftrightarrow>
           (\<exists>x v. t = x # v \<and> lower_char x = lower_char c \<and> ilike_match ps v))
     \<and> (\<forall>t. ilike_match [] t \<longleftrightarrow> t = [])
     \<and> (\<exists>d0 s0 r0 bs0. fst (list_books d0 (Some s0) None) = respond 200 (Books bs0)
           \<and> r0 \<in> set bs0
           \<and> \<not> occurs_ci s0 (title r0) \<and> \<not> occurs_ci s0 (author r0) \<and> description r0 = None)"
proof -
  from like_tokens_total [of "''%'' @ s"] obtain ts where
    ts: "like_tokens (''%'' @ s @ ''%'') = Some ts"
    by auto
  from list_books_search [OF assms ts, of genre_q] obtain bs where
    bs: "fst (list_books d (Some s) genre_q) = respond 200 (Books bs)"
    and sel: "\<forall>r. r \<in> set bs \<longleftrightarrow>
            r \<in> set (rows d)
            \<and> (ilike_match ts (title r) \<or> ilike_match ts (author r)
               \<or> (\<exists>t. description r = Some t \<and> ilike_match ts t))
            \<and> (\<forall>g. genre_q = Some g \<and> g \<noteq> [] \<longrightarrow> genre r = Some g)"
    by blast
  have unescaped: "CHR 0x5C \<notin> set s \<longrightarrow> ts = spec_pattern s"
  proof
    assume "CHR 0x5C \<notin> set s"
    from search_pattern_tokens [OF this] have "Some ts = Some (spec_pattern s)"
      unfolding ts .
    then show "ts = spec_pattern s" by (simp only: option.inject)
  qed
  have escaped: "\<forall>u c v. s = u @ [CHR 0x5C, c] @ v \<and> CHR 0x5C \<notin> set u \<longrightarrow>
           (\<exists>vs. like_tokens (v @ ''%'') = Some vs
                \<and> ts = AnyString # map spec_wildcard u @ Literal c # vs)"
  proof (intro allI impI)
    fix u c v
    assume a: "s = u @ [CHR 0x5C, c] @ v \<and> CHR 0x5C \<notin> set u"
    then have "like_tokens (''%'' @ s @ ''%'')
        = map_option (\<lambda>vs. AnyString # map spec_wildcard u @ Literal c # vs)
            (like_tokens (v @ ''%''))"
      using search_pattern_escape [of u c v] by simp
    with ts show "\<exists>vs. like_tokens (v @ ''%'') = Some vs
                \<and> ts = AnyString # map spec_wildcard u @ Literal c # vs"
      by (cases "like_tokens (v @ ''%'')") auto
  qed
  have lone: "\<forall>u. s = u @ [CHR 0x5C] \<and> CHR 0x5C \<notin> set u \<longrightarrow>
           ts = AnyString # map spec_wildcard u @ [Literal CHR ''%'']"
  proof (intro allI impI)
    fix u
    assume a: "s = u @ [CHR 0x5C] \<and> CHR 0x5C \<notin> set u"
    then have "like_tokens (''%'' @ s @ ''%'')
        = Some (AnyString # map spec_wildcard u @ [Literal CHR ''%''])"
      using search_pattern_last_escape [of u] by simp
    with ts show "ts = AnyString # map spec_wildcard u @ [Literal CHR ''%'']" by simp
  qed
  have some: "\<exists>d0 s0 r0 bs0. fst (list_books d0 (Some s0) None) = respond 200 (Books bs0)
           \<and> r0 \<in> set bs0
           \<and> \<not> occurs_ci s0 (title r0) \<and> \<not> occurs_ci s0 (author r0) \<and> description r0 = None"
  proof -
    have t: "like_tokens (''%'' @ ''D_ne'' @ ''%'')
        = Some [AnyString, Literal CHR ''D'', AnyChar, Literal CHR ''n'', Literal CHR ''e'',
                AnyString]"
      by simp
    have ne: "''D_ne'' \<noteq> []" by simp
    from list_books_search [OF next_ok_shelf ne t, of None] obtain bs0 where
      b0: "fst (list_books shelf (Some ''D_ne'') None) = respond 200 (Books bs0)"
      and s0: "\<forall>r. r \<in> set bs0 \<longleftrightarrow>
            r \<in> set (rows shelf)
            \<and> (ilike_match [AnyString, Literal CHR ''D'', AnyChar, Literal CHR ''n'',
                  Literal CHR ''e'', AnyString] (title r)
               \<or> ilike_match [AnyString, Literal CHR ''D'', AnyChar, Literal CHR ''n'',
                  Literal CHR ''e'', AnyString] (author r)
               \<or> (\<exists>t. description r = Some t
                    \<and> ilike_match [AnyString, Literal CHR ''D'', AnyChar, Literal CHR ''n'',
                        Literal CHR ''e'', AnyString] t))
            \<and> (\<forall>g. None = Some g \<and> g \<noteq> [] \<longrightarrow> genre r = Some g)"
      by blast
    have "dune \<in> set (rows shelf)" by (simp add: shelf_def)
    moreover have "ilike_match [AnyString, Literal CHR ''D'', AnyChar, Literal CHR ''n'',
                  Literal CHR ''e'', AnyString] (title dune)"
      by (simp add: dune_def lower_char_def)
    ultimately have "dune \<in> set bs0" using s0 by simp
    moreover have "\<not> occurs_ci ''D_ne'' (title dune) \<and> \<not> occurs_ci ''D_ne'' (author dune)
       \<and> description dune = None"
      by (simp add: dune_def lower_def lower_char_def)
    ultimately show ?thesis using b0 by blast
  qed
  show ?thesis
  proof (rule exI [of _ ts], rule exI [of _ bs], intro conjI)
    show "like_tokens (''%'' @ s @ ''%'') = Some ts" by (rule ts)
    show "fst (list_books d (Some s) genre_q) = respond 200 (Books bs)" by (rule bs)
    show "\<forall>r. r \<in> set bs \<longleftrightarrow>
            r \<in> set (rows d)
            \<and> (ilike_match ts (title r) \<or> ilike_match ts (author r)
               \<or> (\<exists>t. description r = Some t \<and> ilike_match ts t))
            \<and> (\<forall>g. genre_q = Some g \<and> g \<noteq> [] \<longrightarrow> genre r = Some g)"
      by (rule sel)
    show "CHR 0x5C \<notin> set s \<longrightarrow> ts = spec_pattern s" by (rule unescaped)
    show "\<forall>u c v. s = u @ [CHR 0x5C, c] @ v \<and> CHR 0x5C \<notin> set u \<longrightarrow>
           (\<exists>vs. like_tokens (v @ ''%'') = Some vs
                \<and> ts = AnyString # map spec_wildcard u @ Literal c # vs)"
      by (rule escaped)
    show "\<forall>u. s = u @ [CHR 0x5C] \<and> CHR 0x5C \<notin> set u \<longrightarrow>
           ts = AnyString # map spec_wildcard u @ [Literal CHR ''%'']"
      by (rule lone)
    show "\<forall>ps t. ilike_match (AnyString # ps) t \<longleftrightarrow> (\<exists>w v. t = w @ v \<and> ilike_match ps v)"
      by (intro allI) (rule ilike_any_string)
    show "\<forall>ps t. ilike_match (AnyChar # ps) t \<longleftrightarrow> (\<exists>c v. t = c # v \<and> ilike_match ps v)"
      by (intro allI) (rule ilike_any_char)
    show "\<forall>ps t c. ilike_match (Literal c # ps) t \<longleftrightarrow>
           (\<exists>x v. t = x # v \<and> lower_char x = lower_char c \<and> ilike_match ps v)"
      by (intro allI) (rule ilike_literal)
    show "\<forall>t. ilike_match [] t \<longleftrightarrow> t = []" by simp
    show "\<exists>d0 s0 r0 bs0. fst (list_books d0 (Some s0) None) = respond 200 (Books bs0)
           \<and> r0 \<in> set bs0
           \<and> \<not> occurs_ci s0 (title r0) \<and> \<not> occurs_ci s0 (author r0) \<and> description r0 = None"
      by (rule some)
  qed
qed

theorem search_wildcards_witness:
  "next_ok library \<and> ''D_ne'' \<noteq> []
   \<and> (\<exists>bs. fst (list_books library (Some ''D_ne'') None) = respond 200 (Books bs)
          \<and> dune \<in> set bs \<and> rows library ! 1 \<in> set (rows library)
          \<and> rows library ! 1 \<notin> set bs)
   \<and> (\<exists>bs. fst (list_books library (Some ''D_ne'') (Some ''Novel'')) = respond 200 (Books bs)
          \<and> dune \<notin> set bs)
   \<and> \<not> occurs_ci ''D_ne'' (title dune)"
proof -
  have ne: "''D_ne'' \<noteq> []" by simp
  have p: "spec_pattern ''D_ne''
      = [AnyString, Literal CHR ''D'', AnyChar, Literal CHR ''n'', Literal CHR ''e'', AnyString]"
    by (simp add: spec_pattern_def spec_wildcard_def)
  have row: "dune \<in> set (rows library) \<and> rows library ! 1 \<in> set (rows library)"
    by (simp add: library_def)
  have hit: "ilike_match (spec_pattern ''D_ne'') (title dune)"
    unfolding p by (simp add: dune_def lower_char_def)
  have miss: "\<not> ilike_match (spec_pattern ''D_ne'') (title (rows library ! 1))
      \<and> \<not> ilike_match (spec_pattern ''D_ne'') (author (rows library ! 1))
      \<and> description (rows library ! 1) = None"
    unfolding p by (simp add: library_def dune_def lower_char_def)
  have g: "genre dune = Some ''Sci-Fi''" by (simp add: dune_def)
  have one: "\<exists>bs. fst (list_books library (Some ''D_ne'') None) = respond 200 (Books bs)
          \<and> dune \<in> set bs \<and> rows library ! 1 \<in> set (rows library)
          \<and> rows library ! 1 \<notin> set bs"
    using search_wildcards [OF next_ok_library ne, of None]
  proof (elim exE conjE)
    fix ts bs
    assume b: "fst (list_books library (Some ''D_ne'') None) = respond 200 (Books bs)"
      and sel: "\<forall>r. r \<in> set bs \<longleftrightarrow>
            r \<in> set (rows library)
            \<and> (ilike_match ts (title r) \<or> ilike_match ts (author r)
               \<or> (\<exists>t. description r = Some t \<and> ilike_match ts t))
            \<and> (\<forall>g. None = Some g \<and> g \<noteq> [] \<longrightarrow> genre r = Some g)"
      and u: "CHR 0x5C \<notin> set ''D_ne'' \<longrightarrow> ts = spec_pattern ''D_ne''"
    from u have ts: "ts = spec_pattern ''D_ne''" by simp
    from sel row hit have "dune \<in> set bs" unfolding ts by simp
    moreover from sel miss have "rows library ! 1 \<notin> set bs" unfolding ts by simp
    ultimately show ?thesis using b row by blast
  qed
  have two: "\<exists>bs. fst (list_books library (Some ''D_ne'') (Some ''Novel'')) = respond 200 (Books bs)
          \<and> dune \<notin> set bs"
    using search_wildcards [OF next_ok_library ne, of "Some ''Novel''"]
  proof (elim exE conjE)
    fix ts bs
    assume b: "fst (list_books library (Some ''D_ne'') (Some ''Novel'')) = respond 200 (Books bs)"
      and sel: "\<forall>r. r \<in> set bs \<longleftrightarrow>
            r \<in> set (rows library)
            \<and> (ilike_match ts (title r) \<or> ilike_match ts (author r)
               \<or> (\<exists>t. description r = Some t \<and> ilike_match ts t))
            \<and> (\<forall>g. Some ''Novel'' = Some g \<and> g \<noteq> [] \<longrightarrow> genre r = Some g)"
    from sel g have "dune \<notin> set bs" by simp
    with b show ?thesis by blast
  qed
  have "\<not> occurs_ci ''D_ne'' (title dune)"
    by (simp add: dune_def lower_def lower_char_def)
  with one two next_ok_library ne show ?thesis by blast
qed

subsection \<open>Ordering and duplicates\<close>

lemma insert_by_set [simp]: "set (insert_by le x xs) = insert x (set xs)"
  by (induction xs) auto

lemma insert_by_distinct [simp]: "distinct (insert_by le x xs) \<longleftrightarrow> x \<notin> set xs \<and> distinct xs"
  by (induction xs) auto

lemma insert_by_sorted:
  assumes total: "\<forall>a b. le a b \<or> le b a" and trans: "\<forall>a b c. le a b \<and> le b c \<longrightarrow> le a c"
  shows "sorted_wrt le xs \<Longrightarrow> sorted_wrt le (insert_by le x xs)"
proof (induction xs)
  case Nil
  then show ?case by simp
next
  case (Cons y ys)
  from Cons.prems have tail: "sorted_wrt le ys" and head: "\<forall>z\<in>set ys. le y z"
    by simp_all
  show ?case
  proof (cases "le x y")
    case True
    have "\<forall>z\<in>set ys. le x z"
    proof
      fix z assume "z \<in> set ys"
      with head have "le y z" by blast
      with True trans show "le x z" by blast
    qed
    with True tail head show ?thesis by simp
  next
    case False
    with total have "le y x" by blast
    moreover have "sorted_wrt le (insert_by le x ys)" using Cons.IH tail by blast
    ultimately show ?thesis using False head by simp
  qed
qed

lemma order_by_set [simp]: "set (order_by le xs) = set xs"
  unfolding order_by_def by (induction xs) simp_all

lemma order_by_distinct [simp]: "distinct (order_by le xs) = distinct xs"
proof (induction xs)
  case Nil
  then show ?case by (simp add: order_by_def)
next
  case (Cons x xs)
  have "order_by le (x # xs) = insert_by le x (order_by le xs)"
    by (simp add: order_by_def)
  with Cons show ?case by simp
qed

lemma order_by_sorted:
  assumes "\<forall>a b. le a b \<or> le b a" and "\<forall>a b c. le a b \<and> le b c \<longrightarrow> le a c"
  shows "sorted_wrt le (order_by le xs)"
  unfolding order_by_def by (induction xs) (simp_all add: insert_by_sorted [OF assms])

lemma map_filter_set: "set (List.map_filter f xs) = {y. \<exists>x\<in>set xs. f x = Some y}"
proof (induction xs)
  case Nil
  then show ?case by (simp add: List.map_filter_simps)
next
  case (Cons x xs)
  then show ?case by (cases "f x") (auto simp: List.map_filter_simps)
qed

lemma named_genres_set:
  "set (named_genres rs) = {g. \<exists>r\<in>set rs. genre r = Some g \<and> g \<noteq> []}"
  by (auto simp: named_genres_def map_filter_set)

lemma get_genres_reachable:
  assumes "next_ok d"
  shows "get_genres le d =
     (respond 200 (Genres (order_by le (remdups (named_genres (rows d))))),
      d\<lparr>faults := tl (faults d), issued := issued d + 1\<rparr>)"
  by (simp add: get_genres_def pool_query_reachable [OF assms] sql_distinct_genres_def)

lemma library_genres: "named_genres (rows library) = [''Sci-Fi'', ''Novel'', ''Sci-Fi'']"
  by (simp add: library_def dune_def named_genres_def List.map_filter_simps)

lemma library_authors:
  "remdups (map (\<lambda>r. lower (author r)) (rows library))
     = [''austen'', ''lem'', ''herbert'', ''dick'']"
  by (simp add: library_def dune_def lower_def lower_char_def)

text \<open>
  Claim C6. With the store reachable, Genres returns the genres of the table that are
  neither \<^verbatim>\<open>NULL\<close> nor the empty string, every one of them once, in ascending order
  of the collation, whatever total order on strings the collation is.
\<close>

theorem genres_distinct_sorted:
  assumes "next_ok d"
    and "\<forall>a b. le a b \<or> le b a" and "\<forall>a b c. le a b \<and> le b c \<longrightarrow> le a c"
  shows "\<exists>gs. fst (get_genres le d) = respond 200 (Genres gs)
     \<and> set gs = {g. \<exists>r\<in>set (rows d). genre r = Some g \<and> g \<noteq> []}
     \<and> sorted_wrt le gs \<and> distinct gs"
proof -
  let ?gs = "order_by le (remdups (named_genres (rows d)))"
  have "fst (get_genres le d) = respond 200 (Genres ?gs)"
    by (simp add: get_genres_reachable [OF assms(1)])
  moreover have "set ?gs = {g. \<exists>r\<in>set (rows d). genre r = Some g \<and> g \<noteq> []}"
    by (simp add: named_genres_set)
  moreover have "sorted_wrt le ?gs" by (rule order_by_sorted [OF assms(2,3)])
  moreover have "distinct ?gs" by simp
  ultimately show ?thesis by blast
qed

theorem genres_distinct_sorted_witness:
  "next_ok library
   \<and> (\<exists>gs. fst (get_genres (\<le>) library) = respond 200 (Genres gs)
         \<and> set gs = {''Novel'', ''Sci-Fi''} \<and> sorted_wrt (\<le>) gs \<and> distinct gs)"
proof -
  have total: "\<forall>a b :: string. a \<le> b \<or> b \<le> a" by (simp add: linear)
  have trans: "\<forall>a b c :: string. a \<le> b \<and> b \<le> c \<longrightarrow> a \<le> c" by auto
  have "{g. \<exists>r\<in>set (rows library). genre r = Some g \<and> g \<noteq> []} = {''Novel'', ''Sci-Fi''}"
    unfolding named_genres_set [symmetric] library_genres by auto
  with genres_distinct_sorted [OF next_ok_library total trans] next_ok_library
  show ?thesis by simp
qed

subsection \<open>Statistics\<close>

lemma reachable_for_Suc:
  "reachable_for (Suc n) d \<Longrightarrow>
     next_ok d \<and> reachable_for n (d\<lparr>faults := tl (faults d), issued := issued d + 1\<rparr>)"
  by (cases "faults d") (simp_all add: reachable_for_def next_ok_def)

lemma sum_prices:
  "sum_list (List.map_filter price rs) = (\<Sum>r\<leftarrow>rs. case price r of None \<Rightarrow> 0 | Some p \<Rightarrow> p)"
proof (induction rs)
  case Nil
  then show ?case by (simp add: List.map_filter_simps)
next
  case (Cons r rs)
  then show ?case by (cases "price r") (simp_all add: List.map_filter_simps)
qed

lemma no_prices:
  "List.map_filter price rs = [] \<longleftrightarrow> (\<forall>r\<in>set rs. price r = None)"
proof (induction rs)
  case Nil
  then show ?case by (simp add: List.map_filter_simps)
next
  case (Cons r rs)
  then show ?case by (cases "price r") (simp_all add: List.map_filter_simps)
qed

lemma sql_sum_price_total:
  "sql_sum_price d =
     Inr (if \<forall>r\<in>set (rows d). price r = None then None
          else Some (\<Sum>r\<leftarrow>rows d. case price r of None \<Rightarrow> 0 | Some p \<Rightarrow> p), d)"
proof (cases "List.map_filter price (rows d)")
  case Nil
  then show ?thesis using no_prices [of "rows d"] by (simp add: sql_sum_price_def)
next
  case (Cons p ps)
  then have "\<not> (\<forall>r\<in>set (rows d). price r = None)" using no_prices [of "rows d"] by simp
  moreover have "sum_list (p # ps) = (\<Sum>r\<leftarrow>rows d. case price r of None \<Rightarrow> 0 | Some p \<Rightarrow> p)"
    using sum_prices [of "rows d"] Cons by simp
  ultimately show ?thesis using Cons by (simp add: sql_sum_price_def)
qed

lemma sum_no_prices:
  "\<forall>r\<in>set rs. price r = None \<Longrightarrow> (\<Sum>r\<leftarrow>rs. case price r of None \<Rightarrow> 0 | Some p \<Rightarrow> p) = (0::int)"
  by (induction rs) simp_all

subsection \<open>The number \<^verbatim>\<open>parseFloat\<close> returns\<close>

lemma normalise_spec:
  assumes "0 < n" "0 < d" "normalise n d e = (n', d', e')"
  shows "(of_nat n' / of_nat d' * 2 powi e' :: rat) = of_nat n / of_nat d * 2 powi e
       \<and> 2 ^ 52 * d' \<le> n' \<and> n' < 2 ^ 53 * d' \<and> 0 < d'"
  using assms
proof (induction n d e rule: normalise.induct)
  case (1 n d e)
  from "1.prems" have nz: "\<not> (n = 0 \<or> d = 0)" by simp
  show ?case
  proof (cases "n < 2 ^ 52 * d")
    case True
    with nz "1.prems"(3) have eq: "normalise (2 * n) d (e - 1) = (n', d', e')"
      by (simp add: normalise.simps [of n d e])
    from "1.prems" have pos: "0 < 2 * n" "0 < d" by simp_all
    have "(of_nat (2 * n) / of_nat d * 2 powi (e - 1) :: rat) = of_nat n / of_nat d * 2 powi e"
      by (simp add: power_int_diff)
    with "1.IH"(1) [OF nz True pos eq] show ?thesis by simp
  next
    case False
    show ?thesis
    proof (cases "2 ^ 53 * d \<le> n")
      case True
      with nz False "1.prems"(3) have eq: "normalise n (2 * d) (e + 1) = (n', d', e')"
        by (simp add: normalise.simps [of n d e])
      from "1.prems" have pos: "0 < n" "0 < 2 * d" by simp_all
      have "(of_nat n / of_nat (2 * d) * 2 powi (e + 1) :: rat) = of_nat n / of_nat d * 2 powi e"
        by (simp add: power_int_add)
      with "1.IH"(2) [OF nz False True pos eq] show ?thesis by simp
    next
      case big: False
      with nz False "1.prems"(3) have "(n', d', e') = (n, d, e)"
        by (simp add: normalise.simps [of n d e])
      with False big "1.prems" show ?thesis by simp
    qed
  qed
qed

lemma round_half_even_error:
  assumes "0 < d"
  shows "\<bar>(of_nat (round_half_even n d) :: rat) - of_nat n / of_nat d\<bar> \<le> 1 / 2"
proof -
  define q r where "q = n div d" and "r = n mod d"
  have n: "n = q * d + r" by (simp add: q_def r_def)
  have r: "r < d" using assms by (simp add: r_def)
  have frac: "(of_nat n / of_nat d :: rat) = of_nat q + of_nat r / of_nat d"
    using assms by (simp add: n field_simps)
  have rd: "(of_nat r / of_nat d :: rat) < 1" "0 \<le> (of_nat r / of_nat d :: rat)"
    using r assms by simp_all
  show ?thesis
  proof (cases "2 * r < d \<or> (2 * r = d \<and> even q)")
    case True
    then have rhe: "round_half_even n d = q"
      by (simp add: round_half_even_def q_def r_def Let_def)
    from True have "2 * r \<le> d" by auto
    then have "(of_nat (2 * r) :: rat) \<le> of_nat d" by (simp only: of_nat_le_iff)
    then have "(of_nat r / of_nat d :: rat) \<le> 1 / 2" using assms by (simp add: field_simps)
    with rd show ?thesis by (simp add: rhe frac)
  next
    case False
    then have rhe: "round_half_even n d = q + 1"
      by (simp add: round_half_even_def q_def r_def Let_def)
    from False have "d \<le> 2 * r" by auto
    then have "(of_nat d :: rat) \<le> of_nat (2 * r)" by (simp only: of_nat_le_iff)
    then have "(1 / 2 :: rat) \<le> of_nat r / of_nat d" using assms by (simp add: field_simps)
    with rd show ?thesis by (simp add: rhe frac)
  qed
qed

lemma round_half_even_exact: "0 < d \<Longrightarrow> round_half_even (k * d) d = k"
  by (simp add: round_half_even_def)

text \<open>What \<open>binary64\<close> computes: a mantissa of 53 bits and a power of two.\<close>

lemma binary64_parts:
  assumes "0 < n" "0 < d"
  obtains n' d' e' where
    "normalise n d 0 = (n', d', e')"
    "(of_nat n / of_nat d :: rat) = of_nat n' / of_nat d' * 2 powi e'"
    "2 ^ 52 * d' \<le> n'" "n' < 2 ^ 53 * d'" "0 < d'"
proof -
  obtain n' d' e' where eq: "normalise n d 0 = (n', d', e')" by (cases "normalise n d 0")
  from normalise_spec [OF assms eq] have
    "(of_nat n / of_nat d :: rat) = of_nat n' / of_nat d' * 2 powi e'"
    "2 ^ 52 * d' \<le> n'" "n' < 2 ^ 53 * d'" "0 < d'"
    by simp_all
  with eq that show ?thesis by blast
qed

lemma binary64_error:
  assumes "0 < n" "0 < d" "binary64 n d = Finite v"
  shows "\<bar>v - of_nat n / of_nat d\<bar> \<le> (of_nat n / of_nat d) / 2 ^ 53"
proof -
  from binary64_parts [OF assms(1,2)] obtain n' d' e' where
    eq: "normalise n d 0 = (n', d', e')"
    and x: "(of_nat n / of_nat d :: rat) = of_nat n' / of_nat d' * 2 powi e'"
    and lo: "2 ^ 52 * d' \<le> n'" and d': "0 < d'"
    by blast
  define m where "m = round_half_even n' d'"
  define p :: rat where "p = 2 powi e'"
  define y :: rat where "y = of_nat n' / of_nat d'"
  define X :: rat where "X = of_nat n / of_nat d"
  have p: "0 < p" by (simp add: p_def)
  have X: "X = y * p" by (simp only: X_def y_def p_def x)
  from assms(3) have v: "v = of_nat m * p"
    by (simp add: binary64_def eq m_def p_def Let_def split: if_splits)
  have "\<bar>of_nat m - y\<bar> \<le> 1 / 2"
    unfolding m_def y_def by (rule round_half_even_error [OF d'])
  then have "\<bar>of_nat m - y\<bar> * p \<le> 1 / 2 * p"
    using p by (simp only: mult_le_cancel_right_pos)
  moreover have "v - X = (of_nat m - y) * p"
    by (simp only: v X left_diff_distrib)
  then have "\<bar>v - X\<bar> = \<bar>of_nat m - y\<bar> * p"
    using p by (simp only: abs_mult abs_of_pos)
  ultimately have err: "\<bar>v - X\<bar> \<le> p / 2" by simp
  from lo have "(of_nat (2 ^ 52 * d') :: rat) \<le> of_nat n'" by (simp only: of_nat_le_iff)
  then have "2 ^ 52 \<le> y"
    using d' by (simp add: y_def field_simps)
  then have "2 ^ 52 * p \<le> y * p"
    using p by (simp only: mult_le_cancel_right_pos)
  then have "2 ^ 52 * p / 2 ^ 53 \<le> y * p / 2 ^ 53"
    by (rule divide_right_mono) simp
  moreover have "2 ^ 52 * p / 2 ^ 53 = p / 2" by simp
  ultimately have "p / 2 \<le> X / 2 ^ 53" by (simp only: X)
  with err have "\<bar>v - X\<bar> \<le> X / 2 ^ 53" by (rule order_trans)
  then show ?thesis by (simp only: X_def)
qed

lemma binary64_finite:
  assumes "0 < n" "0 < d" "(of_nat n / of_nat d :: rat) < 2 ^ 1023"
  shows "\<exists>v. binary64 n d = Finite v"
proof -
  from binary64_parts [OF assms(1,2)] obtain n' d' e' where
    eq: "normalise n d 0 = (n', d', e')"
    and x: "(of_nat n / of_nat d :: rat) = of_nat n' / of_nat d' * 2 powi e'"
    and lo: "2 ^ 52 * d' \<le> n'" and d': "0 < d'"
    by blast
  define m where "m = round_half_even n' d'"
  define p :: rat where "p = 2 powi e'"
  have p: "0 < p" by (simp add: p_def)
  have "\<bar>(of_nat m :: rat) - of_nat n' / of_nat d'\<bar> \<le> 1 / 2"
    unfolding m_def by (rule round_half_even_error [OF d'])
  then have m_le: "(of_nat m :: rat) \<le> of_nat n' / of_nat d' + 1 / 2" by linarith
  from lo have "(of_nat (2 ^ 52 * d') :: rat) \<le> of_nat n'" by (simp only: of_nat_le_iff)
  then have "(2 ^ 52 :: rat) \<le> of_nat n' / of_nat d'"
    using d' by (simp add: field_simps)
  moreover have "(1 :: rat) \<le> 2 ^ 52" by simp
  ultimately have "(of_nat m :: rat) \<le> 2 * (of_nat n' / of_nat d')" using m_le by linarith
  then have "of_nat m * p \<le> 2 * (of_nat n' / of_nat d') * p"
    using p by (simp only: mult_le_cancel_right_pos)
  then have "of_nat m * p \<le> 2 * (of_nat n / of_nat d)" by (simp add: x p_def)
  with assms(3) have "of_nat m * p < 2 ^ 1024" by simp
  then show ?thesis
    by (simp add: binary64_def eq m_def [symmetric] p_def [symmetric] Let_def)
qed

lemma power_int_below_one:
  assumes "z < 0"
  shows "(2 :: rat) powi z \<le> 1 / 2"
proof -
  from assms obtain k where k: "nat (- z) = Suc k" by (cases "nat (- z)") auto
  from assms k have "(2 :: rat) powi z = (1 / 2) ^ Suc k"
    by (simp add: power_int_def inverse_eq_divide)
  moreover have "((1 / 2) ^ k :: rat) \<le> 1" by (rule power_le_one) simp_all
  ultimately show ?thesis by simp
qed

lemma binary64_exact:
  assumes "0 < n" "0 < d"
    and rep: "(of_nat n / of_nat d :: rat) = of_nat m * 2 powi k" and m: "m < 2 ^ 53"
    and range: "(of_nat n / of_nat d :: rat) < 2 ^ 1024"
  shows "binary64 n d = Finite (of_nat n / of_nat d)"
proof -
  from binary64_parts [OF assms(1,2)] obtain n' d' e' where
    eq: "normalise n d 0 = (n', d', e')"
    and x: "(of_nat n / of_nat d :: rat) = of_nat n' / of_nat d' * 2 powi e'"
    and lo: "2 ^ 52 * d' \<le> n'" and d': "0 < d'"
    by blast
  from lo have "(of_nat (2 ^ 52 * d') :: rat) \<le> of_nat n'" by (simp only: of_nat_le_iff)
  then have big: "(2 ^ 52 :: rat) \<le> of_nat n' / of_nat d'"
    using d' by (simp add: field_simps)
  have "(of_nat n' / of_nat d' :: rat) = of_nat n / of_nat d * 2 powi (- e')"
    by (simp add: x power_int_minus)
  also have "\<dots> = of_nat m * 2 powi (k - e')"
    by (simp add: rep power_int_diff power_int_minus field_simps)
  finally have q: "(of_nat n' / of_nat d' :: rat) = of_nat m * 2 powi (k - e')" .
  have "0 \<le> k - e'"
  proof (rule ccontr)
    assume "\<not> 0 \<le> k - e'"
    then have "k - e' < 0" by simp
    then have "(2 :: rat) powi (k - e') \<le> 1 / 2" by (rule power_int_below_one)
    then have "of_nat m * (2 :: rat) powi (k - e') \<le> of_nat m * (1 / 2)"
      by (rule mult_left_mono) simp
    moreover from m have "(of_nat m :: rat) < of_nat (2 ^ 53)" by (simp only: of_nat_less_iff)
    ultimately have "(of_nat n' / of_nat d' :: rat) < 2 ^ 52" by (simp add: q)
    with big show False by simp
  qed
  then obtain j where j: "k - e' = int j" by (metis nonneg_int_cases)
  from q d' have "(of_nat n' :: rat) = of_nat (m * 2 ^ j * d')"
    by (simp add: j field_simps)
  then have n': "n' = m * 2 ^ j * d'" by (simp only: of_nat_eq_iff)
  have "round_half_even n' d' = m * 2 ^ j"
    unfolding n' by (rule round_half_even_exact [OF d'])
  moreover have "(of_nat (m * 2 ^ j) :: rat) * 2 powi e' = of_nat n / of_nat d"
    using d' by (simp add: x n')
  ultimately show ?thesis
    using range by (simp add: binary64_def eq Let_def)
qed

lemma parseFloat_zero: "parseFloat 0 = Finite 0"
  by (simp add: parseFloat_def binary64_def normalise.simps round_half_even_def)

lemma parseFloat_error:
  assumes "parseFloat c = Finite v"
  shows "\<bar>v - of_int c / 100\<bar> \<le> \<bar>of_int c / 100\<bar> / 2 ^ 53"
proof (cases "c = 0")
  case True
  with assms show ?thesis by (simp add: parseFloat_zero)
next
  case False
  show ?thesis
  proof (cases "0 < c")
    case True
    with assms have "binary64 (nat c) 100 = Finite v" by (simp add: parseFloat_def)
    from binary64_error [OF _ _ this] True
    have "\<bar>v - of_nat (nat c) / of_nat 100\<bar> \<le> (of_nat (nat c) / of_nat 100) / 2 ^ 53" by simp
    moreover from True have "(of_nat (nat c) :: rat) = of_int c"
      by (simp add: of_nat_nat)
    ultimately show ?thesis using True by simp
  next
    case neg: False
    with False have c: "c < 0" by simp
    with assms obtain w where w: "binary64 (nat (- c)) 100 = Finite w" and v: "v = - w"
      by (auto simp: parseFloat_def negative_def split: number.splits)
    from binary64_error [OF _ _ w] c
    have "\<bar>w - of_nat (nat (- c)) / of_nat 100\<bar> \<le> (of_nat (nat (- c)) / of_nat 100) / 2 ^ 53"
      by simp
    moreover from c have "(of_nat (nat (- c)) :: rat) = - of_int c"
      by (simp add: of_nat_nat)
    ultimately have "\<bar>w + of_int c / 100\<bar> \<le> (- of_int c / 100) / 2 ^ 53" by simp
    moreover have "\<bar>v - of_int c / 100\<bar> = \<bar>w + of_int c / 100\<bar>"
    proof -
      have "v - of_int c / 100 = - (w + of_int c / 100)" by (simp add: v)
      then show ?thesis by (simp only: abs_minus_cancel)
    qed
    moreover from c have "\<bar>(of_int c :: rat) / 100\<bar> = - of_int c / 100" by simp
    ultimately show ?thesis by simp
  qed
qed

lemma parseFloat_finite:
  assumes "\<bar>(of_int c :: rat)\<bar> / 100 < 2 ^ 1023"
  shows "\<exists>v. parseFloat c = Finite v"
proof (cases "c = 0")
  case True
  then show ?thesis by (simp add: parseFloat_zero)
next
  case False
  show ?thesis
  proof (cases "0 < c")
    case True
    then have "(of_nat (nat c) :: rat) = \<bar>of_int c\<bar>" by (simp add: of_nat_nat)
    with assms have "(of_nat (nat c) / of_nat 100 :: rat) < 2 ^ 1023" by simp
    from binary64_finite [OF _ _ this] True show ?thesis by (simp add: parseFloat_def)
  next
    case neg: False
    with False have c: "c < 0" by simp
    then have "(of_nat (nat (- c)) :: rat) = \<bar>of_int c\<bar>" by (simp add: of_nat_nat)
    with assms have "(of_nat (nat (- c)) / of_nat 100 :: rat) < 2 ^ 1023" by simp
    from binary64_finite [OF _ _ this] c obtain w where "binary64 (nat (- c)) 100 = Finite w"
      by auto
    with c show ?thesis by (simp add: parseFloat_def negative_def)
  qed
qed

lemma parseFloat_exact:
  assumes rep: "\<bar>(of_int c :: rat)\<bar> / 100 = of_nat m * 2 powi k" and m: "m < 2 ^ 53"
    and range: "\<bar>(of_int c :: rat)\<bar> / 100 < 2 ^ 1024"
  shows "parseFloat c = Finite (of_int c / 100)"
proof (cases "c = 0")
  case True
  then show ?thesis by (simp add: parseFloat_zero)
next
  case False
  show ?thesis
  proof (cases "0 < c")
    case True
    then have abs: "(of_nat (nat c) :: rat) = \<bar>of_int c\<bar>" by (simp add: of_nat_nat)
    from rep range have "(of_nat (nat c) / of_nat 100 :: rat) = of_nat m * 2 powi k"
      "(of_nat (nat c) / of_nat 100 :: rat) < 2 ^ 1024"
      by (simp_all add: abs)
    from binary64_exact [OF _ _ this(1) m this(2)] True
    have "binary64 (nat c) 100 = Finite (of_nat (nat c) / of_nat 100)" by simp
    with True show ?thesis by (simp add: parseFloat_def of_nat_nat)
  next
    case neg: False
    with False have c: "c < 0" by simp
    then have abs: "(of_nat (nat (- c)) :: rat) = \<bar>of_int c\<bar>" by (simp add: of_nat_nat)
    from rep range have "(of_nat (nat (- c)) / of_nat 100 :: rat) = of_nat m * 2 powi k"
      "(of_nat (nat (- c)) / of_nat 100 :: rat) < 2 ^ 1024"
      by (simp_all add: abs)
    from binary64_exact [OF _ _ this(1) m this(2)] c
    have "binary64 (nat (- c)) 100 = Finite (of_nat (nat (- c)) / of_nat 100)" by simp
    with c show ?thesis by (simp add: parseFloat_def negative_def of_nat_nat)
  qed
qed

lemma parseInt_exact:
  assumes "n < 2 ^ 53"
  shows "parseInt n = Finite (of_nat n)"
proof (cases "n = 0")
  case True
  then show ?thesis
    by (simp add: parseInt_def binary64_def normalise.simps round_half_even_def)
next
  case False
  have "(of_nat n :: rat) < of_nat (2 ^ 53)" using assms by (simp only: of_nat_less_iff)
  also have "\<dots> < 2 ^ 1024" by simp
  finally have range: "(of_nat n / of_nat 1 :: rat) < 2 ^ 1024" by simp
  have rep: "(of_nat n / of_nat 1 :: rat) = of_nat n * 2 powi 0" by simp
  from binary64_exact [OF _ _ rep assms range] False show ?thesis
    by (simp add: parseInt_def)
qed

lemma get_stats_reachable:
  assumes "reachable_for 4 d"
  shows "get_stats d =
     (respond 200 (Statistics
        \<lparr>totalBooks = parseInt (length (rows d)),
         uniqueAuthors = parseInt (length (remdups (map (\<lambda>r. lower (author r)) (rows d)))),
         uniqueGenres = parseInt (length (remdups (named_genres (rows d)))),
         totalValue = parseFloat (\<Sum>r\<leftarrow>rows d. case price r of None \<Rightarrow> 0 | Some p \<Rightarrow> p)\<rparr>),
      d\<lparr>faults := drop 4 (faults d), issued := issued d + 4\<rparr>)"
proof -
  define d1 where "d1 = d\<lparr>faults := tl (faults d), issued := issued d + 1\<rparr>"
  define d2 where "d2 = d1\<lparr>faults := tl (faults d1), issued := issued d1 + 1\<rparr>"
  define d3 where "d3 = d2\<lparr>faults := tl (faults d2), issued := issued d2 + 1\<rparr>"
  define d4 where "d4 = d3\<lparr>faults := tl (faults d3), issued := issued d3 + 1\<rparr>"
  have "reachable_for (Suc 3) d" using assms by (simp add: numeral_eq_Suc)
  from reachable_for_Suc [OF this] have ok0: "next_ok d" and r1: "reachable_for 3 d1"
    by (simp_all add: d1_def)
  have "reachable_for (Suc 2) d1" using r1 by (simp add: numeral_eq_Suc)
  from reachable_for_Suc [OF this] have ok1: "next_ok d1" and r2: "reachable_for 2 d2"
    by (simp_all add: d2_def)
  have "reachable_for (Suc 1) d2" using r2 by (simp add: numeral_eq_Suc)
  from reachable_for_Suc [OF this] have ok2: "next_ok d2" and r3: "reachable_for 1 d3"
    by (simp_all add: d3_def)
  have "reachable_for (Suc 0) d3" using r3 by simp
  from reachable_for_Suc [OF this] have ok3: "next_ok d3" by simp
  have q1: "pool_query d sql_count_books = (Inr (length (rows d)), d1)"
    by (simp add: pool_query_reachable [OF ok0] sql_count_books_def d1_def)
  have q2: "pool_query d1 sql_count_authors
      = (Inr (length (remdups (map (\<lambda>r. lower (author r)) (rows d)))), d2)"
    by (simp add: pool_query_reachable [OF ok1] sql_count_authors_def d2_def) (simp add: d1_def)
  have q3: "pool_query d2 sql_count_genres = (Inr (length (remdups (named_genres (rows d)))), d3)"
    by (simp add: pool_query_reachable [OF ok2] sql_count_genres_def d3_def)
       (simp add: d2_def d1_def)
  have q4: "pool_query d3 sql_sum_price
      = (Inr (if \<forall>r\<in>set (rows d). price r = None then None
          else Some (\<Sum>r\<leftarrow>rows d. case price r of None \<Rightarrow> 0 | Some p \<Rightarrow> p)), d4)"
    by (simp add: pool_query_reachable [OF ok3] sql_sum_price_total d4_def)
       (simp add: d3_def d2_def d1_def)
  have d4: "d4 = d\<lparr>faults := drop 4 (faults d), issued := issued d + 4\<rparr>"
    by (simp add: d4_def d3_def d2_def d1_def drop_Suc numeral_eq_Suc tl_drop)
  show ?thesis
    unfolding get_stats_def q1 then_do_result q2 q3 q4 d4
    by (simp add: sum_no_prices)
qed

lemma price_sum_map:
  "sum_list (map ((\<lambda>r. case price r of None \<Rightarrow> 0 | Some p \<Rightarrow> p)
        \<circ> (\<lambda>i. dune\<lparr>book_id := int i, price := Some p\<rparr>)) xs) = int (length xs) * p"
  by (induction xs) (simp_all add: algebra_simps)

lemma ledger_sum:
  "(\<Sum>r\<leftarrow>rows ledger. case price r of None \<Rightarrow> 0 | Some p \<Rightarrow> p) = 9007199254740993"
proof -
  have "(\<Sum>r\<leftarrow>rows ledger. case price r of None \<Rightarrow> 0 | Some p \<Rightarrow> p)
      = int (length [1..<Suc ledger_size]) * 9999999999 + 9255641712"
    by (simp add: ledger_def ledger_rows_def price_sum_map del: upt_Suc)
  also have "\<dots> = 9007199254740993" by (simp add: ledger_size_def del: upt_Suc)
  finally show ?thesis .
qed

lemma ledger_total:
  "parseFloat 9007199254740993 = Finite (5764607523034236 / 64)"
proof -
  have "normalise 9007199254740993 100 0 = (576460752303423552, 100, - 6)"
    by (simp add: normalise.simps)
  then show ?thesis
    by (simp add: parseFloat_def binary64_def round_half_even_def power_int_def power_divide)
qed

text \<open>
  Claim C5 says that totalValue equals the sum of the prices for every table. The
  prices of \<open>ledger\<close> add up to 90071992547409.93, and Stats answers with the double
  next to it, 90071992547409.9375.
\<close>

theorem stats_counterexample:
  "fst (get_stats ledger) =
     respond 200 (Statistics
       \<lparr>totalBooks = parseInt (length (rows ledger)),
        uniqueAuthors = parseInt (length (remdups (map (\<lambda>r. lower (author r)) (rows ledger)))),
        uniqueGenres = parseInt (length (remdups (named_genres (rows ledger)))),
        totalValue = Finite (5764607523034236 / 64)\<rparr>)
   \<and> (\<Sum>r\<leftarrow>rows ledger. case price r of None \<Rightarrow> 0 | Some p \<Rightarrow> p) = 9007199254740993
   \<and> (5764607523034236 / 64 :: rat) \<noteq> 9007199254740993 / 100"
proof -
  have "reachable_for 4 ledger" by (simp add: reachable_for_def ledger_def)
  from get_stats_reachable [OF this] show ?thesis
    by (simp add: ledger_sum ledger_total)
qed

text \<open>
  Claim C5, amended. With the store reachable for its four statements, Stats answers
  with four counters read from the table as it is, each the double nearest to a value of
  the table: the number of rows; the number of distinct authors, two authors that differ
  only in case counting once; the number of distinct genres among those that are neither
  \<^verbatim>\<open>NULL\<close> nor empty; and the sum of the prices of the rows that have one. For a
  table of fewer than \<open>2 ^ 53\<close> rows the three counts are exact. The total is 0 when
  no row has a price; it is the sum itself whenever the sum is a double (a mantissa below
  \<open>2 ^ 53\<close> times a power of two); and for every sum below \<open>2 ^ 1023\<close> it is
  finite and differs from the sum by at most the sum divided by \<open>2 ^ 53\<close>. The table
  is not changed, and each call sends its four statements.
\<close>

theorem stats_counters:
  assumes "reachable_for 4 d"
    and "S = (\<Sum>r\<leftarrow>rows d. case price r of None \<Rightarrow> 0 | Some p \<Rightarrow> p)"
  shows "\<exists>st. fst (get_stats d) = respond 200 (Statistics st)
     \<and> totalBooks st = parseInt (length (rows d))
     \<and> uniqueAuthors st = parseInt (card ((\<lambda>r. lower (author r)) ` set (rows d)))
     \<and> uniqueGenres st = parseInt (card {g. \<exists>r\<in>set (rows d). genre r = Some g \<and> g \<noteq> []})
     \<and> totalValue st = parseFloat S
     \<and> (length (rows d) < 2 ^ 53 \<longrightarrow>
          totalBooks st = Finite (of_nat (length (rows d)))
          \<and> uniqueAuthors st = Finite (of_nat (card ((\<lambda>r. lower (author r)) ` set (rows d))))
          \<and> uniqueGenres st
              = Finite (of_nat (card {g. \<exists>r\<in>set (rows d). genre r = Some g \<and> g \<noteq> []})))
     \<and> ((\<forall>r\<in>set (rows d). price r = None) \<longrightarrow> totalValue st = Finite 0)
     \<and> (\<bar>rat_of_int S\<bar> / 100 = of_nat m * 2 powi k \<and> m < 2 ^ 53
          \<and> \<bar>rat_of_int S\<bar> / 100 < 2 ^ 1024
          \<longrightarrow> totalValue st = Finite (rat_of_int S / 100))
     \<and> (\<bar>rat_of_int S\<bar> / 100 < 2 ^ 1023
          \<longrightarrow> (\<exists>v. totalValue st = Finite v
                 \<and> \<bar>v - rat_of_int S / 100\<bar> \<le> \<bar>rat_of_int S / 100\<bar> / 2 ^ 53))
     \<and> rows (snd (get_stats d)) = rows d
     \<and> issued (snd (get_stats d)) = issued d + 4"
proof -
  define A where "A = card ((\<lambda>r. lower (author r)) ` set (rows d))"
  define G where "G = card {g. \<exists>r\<in>set (rows d). genre r = Some g \<and> g \<noteq> []}"
  let ?st = "\<lparr>totalBooks = parseInt (length (rows d)), uniqueAuthors = parseInt A,
         uniqueGenres = parseInt G, totalValue = parseFloat S\<rparr>"
  have a: "length (remdups (map (\<lambda>r. lower (author r)) (rows d))) = A"
    by (simp add: A_def length_remdups_card_conv)
  have g: "length (remdups (named_genres (rows d))) = G"
    by (simp add: G_def length_remdups_card_conv named_genres_set)
  have "A \<le> length (map (\<lambda>r. lower (author r)) (rows d))"
    unfolding a [symmetric] by (rule length_remdups_leq)
  then have a_le: "A \<le> length (rows d)" by simp
  have "G \<le> length (named_genres (rows d))"
    unfolding g [symmetric] by (rule length_remdups_leq)
  also have "\<dots> \<le> length (rows d)"
    by (simp add: named_genres_def map_filter_def)
  finally have g_le: "G \<le> length (rows d)" .
  have "fst (get_stats d) = respond 200 (Statistics ?st)"
    by (simp add: get_stats_reachable [OF assms(1)] assms(2) a g)
  moreover have "totalBooks ?st = parseInt (length (rows d))" by simp
  moreover have "uniqueAuthors ?st = parseInt A" by simp
  moreover have "uniqueGenres ?st = parseInt G" by simp
  moreover have "totalValue ?st = parseFloat S" by simp
  moreover have "length (rows d) < 2 ^ 53 \<longrightarrow>
          totalBooks ?st = Finite (of_nat (length (rows d)))
          \<and> uniqueAuthors ?st = Finite (of_nat A) \<and> uniqueGenres ?st = Finite (of_nat G)"
  proof
    assume n: "length (rows d) < 2 ^ 53"
    with a_le g_le have "A < 2 ^ 53" "G < 2 ^ 53" by simp_all
    with n show "totalBooks ?st = Finite (of_nat (length (rows d)))
          \<and> uniqueAuthors ?st = Finite (of_nat A) \<and> uniqueGenres ?st = Finite (of_nat G)"
      by (simp add: parseInt_exact)
  qed
  moreover have "(\<forall>r\<in>set (rows d). price r = None) \<longrightarrow> totalValue ?st = Finite 0"
    by (simp add: assms(2) sum_no_prices parseFloat_zero)
  moreover have "\<bar>rat_of_int S\<bar> / 100 = of_nat m * 2 powi k \<and> m < 2 ^ 53
          \<and> \<bar>rat_of_int S\<bar> / 100 < 2 ^ 1024
          \<longrightarrow> totalValue ?st = Finite (rat_of_int S / 100)"
    using parseFloat_exact [of S m k] by simp
  moreover have "\<bar>rat_of_int S\<bar> / 100 < 2 ^ 1023
          \<longrightarrow> (\<exists>v. totalValue ?st = Finite v
                 \<and> \<bar>v - rat_of_int S / 100\<bar> \<le> \<bar>rat_of_int S / 100\<bar> / 2 ^ 53)"
  proof
    assume "\<bar>rat_of_int S\<bar> / 100 < 2 ^ 1023"
    from parseFloat_finite [OF this] obtain v where v: "parseFloat S = Finite v" by blast
    from parseFloat_error [OF v] v
    show "\<exists>v. totalValue ?st = Finite v \<and> \<bar>v - rat_of_int S / 100\<bar> \<le> \<bar>rat_of_int S / 100\<bar> / 2 ^ 53"
      by simp
  qed
  moreover have "rows (snd (get_stats d)) = rows d \<and> issued (snd (get_stats d)) = issued d + 4"
    by (simp add: get_stats_reachable [OF assms(1)])
  ultimately show ?thesis unfolding A_def G_def by blast
qed

theorem stats_counters_witness:
  "reachable_for 4 library
   \<and> (\<Sum>r\<leftarrow>rows library. case price r of None \<Rightarrow> 0 | Some p \<Rightarrow> p) = 2250
   \<and> (\<exists>st. fst (get_stats library) = respond 200 (Statistics st)
         \<and> totalBooks st = Finite 5 \<and> uniqueAuthors st = Finite 4 \<and> uniqueGenres st = Finite 2
         \<and> totalValue st = Finite (45 / 2))
   \<and> (\<exists>st. fst (get_stats (library\<lparr>rows := []\<rparr>)) = respond 200 (Statistics st)
         \<and> totalBooks st = Finite 0 \<and> totalValue st = Finite 0)"
proof -
  have r: "reachable_for 4 library" by (simp add: reachable_for_def library_def)
  have r0: "reachable_for 4 (library\<lparr>rows := []\<rparr>)" by (simp add: reachable_for_def library_def)
  have n: "length (rows library) = 5" by (simp add: library_def)
  have a: "card ((\<lambda>r. lower (author r)) ` set (rows library)) = 4"
    using length_remdups_card_conv [of "map (\<lambda>r. lower (author r)) (rows library)"]
    by (simp add: library_authors)
  have "card {g. \<exists>r\<in>set (rows library). genre r = Some g \<and> g \<noteq> []}
      = length (remdups (named_genres (rows library)))"
    by (simp only: named_genres_set [symmetric] length_remdups_card_conv)
  then have g: "card {g. \<exists>r\<in>set (rows library). genre r = Some g \<and> g \<noteq> []} = 2"
    by (simp only: library_genres) simp
  have v: "2250 = (\<Sum>r\<leftarrow>rows library. case price r of None \<Rightarrow> 0 | Some p \<Rightarrow> p)"
    by (simp add: library_def dune_def)
  have rep: "\<bar>rat_of_int 2250\<bar> / 100 = of_nat 45 * 2 powi (- 1) \<and> (45 :: nat) < 2 ^ 53
      \<and> \<bar>rat_of_int 2250\<bar> / 100 < 2 ^ 1024"
    by (simp add: power_int_def)
  have small: "length (rows library) < 2 ^ 53" by (simp only: n) simp
  from stats_counters [OF r v, of 45 "- 1"] obtain st where
    st: "fst (get_stats library) = respond 200 (Statistics st)"
    and counts: "length (rows library) < 2 ^ 53 \<longrightarrow>
          totalBooks st = Finite (of_nat (length (rows library)))
          \<and> uniqueAuthors st
              = Finite (of_nat (card ((\<lambda>r. lower (author r)) ` set (rows library))))
          \<and> uniqueGenres st
              = Finite (of_nat (card {g. \<exists>r\<in>set (rows library). genre r = Some g \<and> g \<noteq> []}))"
    and total: "\<bar>rat_of_int 2250\<bar> / 100 = of_nat 45 * 2 powi (- 1) \<and> (45 :: nat) < 2 ^ 53
          \<and> \<bar>rat_of_int 2250\<bar> / 100 < 2 ^ 1024
          \<longrightarrow> totalValue st = Finite (rat_of_int 2250 / 100)"
    by blast
  from counts small have "totalBooks st = Finite 5 \<and> uniqueAuthors st = Finite 4
      \<and> uniqueGenres st = Finite 2"
    by (simp only: n a g) simp
  moreover from total rep have "totalValue st = Finite (45 / 2)" by simp
  ultimately have one: "\<exists>st. fst (get_stats library) = respond 200 (Statistics st)
         \<and> totalBooks st = Finite 5 \<and> uniqueAuthors st = Finite 4 \<and> uniqueGenres st = Finite 2
         \<and> totalValue st = Finite (45 / 2)"
    using st by blast
  from stats_counters [OF r0 refl] obtain st0 where
    st0: "fst (get_stats (library\<lparr>rows := []\<rparr>)) = respond 200 (Statistics st0)"
    and counts0: "length (rows (library\<lparr>rows := []\<rparr>)) < 2 ^ 53 \<longrightarrow>
          totalBooks st0 = Finite (of_nat (length (rows (library\<lparr>rows := []\<rparr>))))
          \<and> uniqueAuthors st0
              = Finite (of_nat (card ((\<lambda>r. lower (author r))
                   ` set (rows (library\<lparr>rows := []\<rparr>)))))
          \<and> uniqueGenres st0
              = Finite (of_nat (card {g. \<exists>r\<in>set (rows (library\<lparr>rows := []\<rparr>)).
                   genre r = Some g \<and> g \<noteq> []}))"
    and none0: "(\<forall>r\<in>set (rows (library\<lparr>rows := []\<rparr>)). price r = None)
          \<longrightarrow> totalValue st0 = Finite 0"
    by blast
  from counts0 none0 have "totalBooks st0 = Finite 0 \<and> totalValue st0 = Finite 0" by simp
  with st0 have two: "\<exists>st. fst (get_stats (library\<lparr>rows := []\<rparr>)) = respond 200 (Statistics st)
         \<and> totalBooks st = Finite 0 \<and> totalValue st = Finite 0"
    by blast
  from one two r v show ?thesis by simp
qed

subsection \<open>Failures of the store\<close>

text \<open>
  A statement either fails, and is counted in \<open>failed\<close>, or succeeds and leaves that
  count alone.
\<close>

lemma pool_query_failed:
  assumes keeps: "\<And>d1 a d2. stmt d1 = Inr (a, d2) \<Longrightarrow> failed d2 = failed d1"
  shows "(\<exists>e d'. pool_query d stmt = (Inl e, d') \<and> failed d' = failed d + 1)
       \<or> (\<exists>a d'. pool_query d stmt = (Inr a, d') \<and> failed d' = failed d)"
proof (cases "faults d \<noteq> [] \<and> hd (faults d)")
  case True
  then show ?thesis by (simp add: pool_query_def Let_def)
next
  case False
  let ?d1 = "d\<lparr>faults := tl (faults d), issued := issued d + 1\<rparr>"
  show ?thesis
  proof (cases "stmt ?d1")
    case (Inl e)
    with False show ?thesis by (simp add: pool_query_def Let_def)
  next
    case (Inr p)
    obtain a d2 where p: "p = (a, d2)" by (cases p)
    with Inr keeps [of ?d1 a d2] have "failed d2 = failed d" by simp
    with False Inr p show ?thesis by (simp add: pool_query_def Let_def)
  qed
qed

lemma pool_query_fault:
  "faults d = True # fs \<Longrightarrow>
   pool_query d stmt = (Inl Unavailable, d\<lparr>faults := fs, issued := issued d + 1, failed := failed d + 1\<rparr>)"
  by (simp add: pool_query_def Let_def)

lemma sql_select_books_keeps: "sql_select_books cs d1 = Inr (a, d2) \<Longrightarrow> failed d2 = failed d1"
  by (simp add: sql_select_books_def split: if_splits)

lemma sql_select_by_id_keeps: "sql_select_by_id idp d1 = Inr (a, d2) \<Longrightarrow> failed d2 = failed d1"
  by (cases "int4in idp") (simp_all add: sql_select_by_id_def bind_err_def)

lemma sql_delete_keeps: "sql_delete idp d1 = Inr (a, d2) \<Longrightarrow> failed d2 = failed d1"
  by (cases "int4in idp") (auto simp: sql_delete_def bind_err_def)

lemma sql_insert_keeps: "sql_insert p d1 = Inr (a, d2) \<Longrightarrow> failed d2 = failed d1"
  by (cases "int4 (next_id d1)"; cases "convert_columns p")
     (auto simp: sql_insert_def bind_err_def Let_def split: if_splits)

lemma sql_update_keeps: "sql_update p idp d1 = Inr (a, d2) \<Longrightarrow> failed d2 = failed d1"
  by (cases "int4in idp"; cases "convert_columns p")
     (auto simp: sql_update_def bind_err_def Let_def)

lemma sql_distinct_genres_keeps:
  "sql_distinct_genres le d1 = Inr (a, d2) \<Longrightarrow> failed d2 = failed d1"
  by (auto simp: sql_distinct_genres_def)

lemma sql_counts_keep:
  "sql_count_books d1 = Inr (n, d2) \<Longrightarrow> failed d2 = failed d1"
  "sql_count_authors d1 = Inr (n, d2) \<Longrightarrow> failed d2 = failed d1"
  "sql_count_genres d1 = Inr (n, d2) \<Longrightarrow> failed d2 = failed d1"
  "sql_sum_price d1 = Inr (s, d2) \<Longrightarrow> failed d2 = failed d1"
  by (auto simp: sql_count_books_def sql_count_authors_def sql_count_genres_def sql_sum_price_def)

text \<open>A handler of one statement whose continuation only builds the response.\<close>

lemma one_statement_500:
  assumes keeps: "\<And>d1 a d2. stmt d1 = Inr (a, d2) \<Longrightarrow> failed d2 = failed d1"
    and changed: "failed (snd (catch_500 msg (then_do (pool_query d stmt) (\<lambda>res d'. (Inr (k res), d'))))) \<noteq> failed d"
  shows "fst (catch_500 msg (then_do (pool_query d stmt) (\<lambda>res d'. (Inr (k res), d'))))
     = respond 500 (Error msg)"
proof -
  have "(\<exists>e d'. pool_query d stmt = (Inl e, d') \<and> failed d' = failed d + 1)
       \<or> (\<exists>a d'. pool_query d stmt = (Inr a, d') \<and> failed d' = failed d)"
    by (rule pool_query_failed) (rule keeps)
  then show ?thesis
  proof
    assume "\<exists>e d'. pool_query d stmt = (Inl e, d') \<and> failed d' = failed d + 1"
    then show ?thesis by auto
  next
    assume "\<exists>a d'. pool_query d stmt = (Inr a, d') \<and> failed d' = failed d"
    then obtain a d' where "pool_query d stmt = (Inr a, d')" "failed d' = failed d" by blast
    with changed show ?thesis by simp
  qed
qed

lemma if_response: "(if c then (Inr a, d) else (Inr b, d)) = (Inr (if c then a else b), d)"
  by simp

lemma list_books_500:
  "failed (snd (list_books d s g)) \<noteq> failed d \<Longrightarrow>
   fst (list_books d s g) = respond 500 (Error ''Failed to fetch books'')"
  unfolding list_books_def by (rule one_statement_500) (rule sql_select_books_keeps)

lemma get_book_500:
  "failed (snd (get_book d idp)) \<noteq> failed d \<Longrightarrow>
   fst (get_book d idp) = respond 500 (Error ''Failed to fetch book'')"
  unfolding get_book_def if_response by (rule one_statement_500) (rule sql_select_by_id_keeps)

lemma delete_book_500:
  "failed (snd (delete_book d idp)) \<noteq> failed d \<Longrightarrow>
   fst (delete_book d idp) = respond 500 (Error ''Failed to delete book'')"
  unfolding delete_book_def if_response by (rule one_statement_500) (rule sql_delete_keeps)

lemma get_genres_500:
  "failed (snd (get_genres le d)) \<noteq> failed d \<Longrightarrow>
   fst (get_genres le d) = respond 500 (Error ''Failed to fetch genres'')"
  unfolding get_genres_def by (rule one_statement_500) (rule sql_distinct_genres_keeps)

lemma create_book_500:
  assumes "failed (snd (create_book d b)) \<noteq> failed d"
  shows "fst (create_book d b) = respond 500 (Error ''Failed to add book'')"
proof (cases "\<not> truthy_str (b_title b) \<or> \<not> truthy_str (b_author b)")
  case True
  with assms show ?thesis by (simp add: create_book_def)
next
  case False
  with assms show ?thesis
    unfolding create_book_def
    by (simp only: if_False) (rule one_statement_500, rule sql_insert_keeps)
qed

lemma update_book_500:
  assumes "failed (snd (update_book d idp b)) \<noteq> failed d"
  shows "fst (update_book d idp b) = respond 500 (Error ''Failed to update book'')"
proof (cases "\<not> truthy_str (b_title b) \<or> \<not> truthy_str (b_author b)")
  case True
  with assms show ?thesis by (simp add: update_book_def)
next
  case False
  with assms show ?thesis
    unfolding update_book_def if_response
    by (simp only: if_False) (rule one_statement_500, rule sql_update_keeps)
qed

lemma get_stats_500:
  assumes "failed (snd (get_stats d)) \<noteq> failed d"
  shows "fst (get_stats d) = respond 500 (Error ''Failed to fetch statistics'')"
proof -
  have q1: "(\<exists>e d'. pool_query d sql_count_books = (Inl e, d') \<and> failed d' = failed d + 1)
       \<or> (\<exists>a d'. pool_query d sql_count_books = (Inr a, d') \<and> failed d' = failed d)"
    by (rule pool_query_failed) (rule sql_counts_keep)
  then show ?thesis
  proof
    assume "\<exists>e d'. pool_query d sql_count_books = (Inl e, d') \<and> failed d' = failed d + 1"
    then show ?thesis by (auto simp: get_stats_def)
  next
    assume "\<exists>a d'. pool_query d sql_count_books = (Inr a, d') \<and> failed d' = failed d"
    then obtain n1 d1 where s1: "pool_query d sql_count_books = (Inr n1, d1)"
      and f1: "failed d1 = failed d" by blast
    have "(\<exists>e d'. pool_query d1 sql_count_authors = (Inl e, d') \<and> failed d' = failed d1 + 1)
       \<or> (\<exists>a d'. pool_query d1 sql_count_authors = (Inr a, d') \<and> failed d' = failed d1)"
      by (rule pool_query_failed) (rule sql_counts_keep)
    then show ?thesis
    proof
      assume "\<exists>e d'. pool_query d1 sql_count_authors = (Inl e, d') \<and> failed d' = failed d1 + 1"
      with s1 show ?thesis by (auto simp: get_stats_def)
    next
      assume "\<exists>a d'. pool_query d1 sql_count_authors = (Inr a, d') \<and> failed d' = failed d1"
      then obtain n2 d2 where s2: "pool_query d1 sql_count_authors = (Inr n2, d2)"
        and f2: "failed d2 = failed d1" by blast
      have "(\<exists>e d'. pool_query d2 sql_count_genres = (Inl e, d') \<and> failed d' = failed d2 + 1)
         \<or> (\<exists>a d'. pool_query d2 sql_count_genres = (Inr a, d') \<and> failed d' = failed d2)"
        by (rule pool_query_failed) (rule sql_counts_keep)
      then show ?thesis
      proof
        assume "\<exists>e d'. pool_query d2 sql_count_genres = (Inl e, d') \<and> failed d' = failed d2 + 1"
        with s1 s2 show ?thesis by (auto simp: get_stats_def)
      next
        assume "\<exists>a d'. pool_query d2 sql_count_genres = (Inr a, d') \<and> failed d' = failed d2"
        then obtain n3 d3 where s3: "pool_query d2 sql_count_genres = (Inr n3, d3)"
          and f3: "failed d3 = failed d2" by blast
        have "(\<exists>e d'. pool_query d3 sql_sum_price = (Inl e, d') \<and> failed d' = failed d3 + 1)
           \<or> (\<exists>a d'. pool_query d3 sql_sum_price = (Inr a, d') \<and> failed d' = failed d3)"
          by (rule pool_query_failed) (rule sql_counts_keep)
        then show ?thesis
        proof
          assume "\<exists>e d'. pool_query d3 sql_sum_price = (Inl e, d') \<and> failed d' = failed d3 + 1"
          with s1 s2 s3 show ?thesis by (auto simp: get_stats_def)
        next
          assume "\<exists>a d'. pool_query d3 sql_sum_price = (Inr a, d') \<and> failed d' = failed d3"
          then obtain v d4 where s4: "pool_query d3 sql_sum_price = (Inr v, d4)"
            and f4: "failed d4 = failed d3" by blast
          from s1 s2 s3 s4 have "snd (get_stats d) = d4" by (simp add: get_stats_def)
          with f1 f2 f3 f4 assms show ?thesis by simp
        qed
      qed
    qed
  qed
qed

text \<open>
  Claim C9. Whatever the operation, when a statement it sent to the store failed (the
  store was unreachable, or rejected the statement), the handler answers with status
  500 and a body of the shape \<^verbatim>\<open>{ "error": message }\<close>. Every handler is a total
  function to a response: the failure of a statement is a value that the \<^verbatim>\<open>catch\<close>
  clause turns into that response, and nothing else leaves the handler.
\<close>

theorem store_failure_answered_500:
  assumes "failed (snd (handle le rq d)) \<noteq> failed d"
  shows "status (fst (handle le rq d)) = 500
       \<and> (\<exists>msg. payload (fst (handle le rq d)) = Error msg)"
proof -
  have "\<exists>msg. fst (handle le rq d) = respond 500 (Error msg)"
  proof (cases rq)
    case (List s g)
    with assms list_books_500 [of d s g] show ?thesis by fastforce
  next
    case (Get idp)
    with assms get_book_500 [of d idp] show ?thesis by fastforce
  next
    case (Create b)
    with assms create_book_500 [of d b] show ?thesis by fastforce
  next
    case (Update idp b)
    with assms update_book_500 [of d idp b] show ?thesis by fastforce
  next
    case (Delete idp)
    with assms delete_book_500 [of d idp] show ?thesis by fastforce
  next
    case Stats
    with assms get_stats_500 [of d] show ?thesis by fastforce
  next
    case GenreList
    with assms get_genres_500 [of le d] show ?thesis by fastforce
  qed
  then show ?thesis by (auto simp: respond_def)
qed

theorem store_failure_answered_500_witness:
  "failed (snd (handle (\<le>) Stats (shelf\<lparr>faults := [False, False, True]\<rparr>))) = 1
   \<and> failed (shelf\<lparr>faults := [False, False, True]\<rparr>) = 0
   \<and> status (fst (handle (\<le>) Stats (shelf\<lparr>faults := [False, False, True]\<rparr>))) = 500
   \<and> payload (fst (handle (\<le>) Stats (shelf\<lparr>faults := [False, False, True]\<rparr>)))
       = Error ''Failed to fetch statistics''
   \<and> failed (snd (handle (\<le>) (Get ''abc'') shelf)) = 1
   \<and> fst (handle (\<le>) (Get ''abc'') shelf) = respond 500 (Error ''Failed to fetch book'')"
proof -
  let ?d = "shelf\<lparr>faults := [False, False, True]\<rparr>"
  have f: "failed (snd (handle (\<le>) Stats ?d)) = 1"
    by (simp add: get_stats_def pool_query_def Let_def shelf_def sql_count_books_def
        sql_count_authors_def sql_count_genres_def)
  have f0: "failed ?d = 0" by (simp add: shelf_def)
  have p: "payload (fst (handle (\<le>) Stats ?d)) = Error ''Failed to fetch statistics''"
    by (simp add: get_stats_def pool_query_def Let_def shelf_def sql_count_books_def
        sql_count_authors_def sql_count_genres_def respond_def)
  have g: "failed (snd (handle (\<le>) (Get ''abc'') shelf)) = 1"
    by (simp add: get_book_reachable [OF next_ok_shelf] int4in_abc) (simp add: shelf_def)
  have g0: "failed shelf = 0" by (simp add: shelf_def)
  have gr: "fst (handle (\<le>) (Get ''abc'') shelf) = respond 500 (Error ''Failed to fetch book'')"
    by (simp add: get_book_reachable [OF next_ok_shelf] int4in_abc)
  from store_failure_answered_500 [of "(\<le>)" Stats ?d] f f0
  have "status (fst (handle (\<le>) Stats ?d)) = 500" by simp
  with f f0 p g gr show ?thesis by simp
qed

subsection \<open>What Create and Update store\<close>

lemma stored_num:
  "to_param (or_null truthy_num v) = (case v of Val n \<Rightarrow> if n = 0 then None else Some n | _ \<Rightarrow> None)"
  by (cases v) (simp_all add: to_param_def or_null_def truthy_num_def)

lemma stored_str:
  "to_param (or_null truthy_str v) = (case v of Val s \<Rightarrow> if s = [] then None else Some s | _ \<Rightarrow> None)"
  by (cases v) (simp_all add: to_param_def or_null_def truthy_str_def)

lemma nullable_int4:
  "fits_int v \<Longrightarrow> nullable int4 (to_param (or_null truthy_num v)) = Inr (to_param (or_null truthy_num v))"
  by (cases v) (simp_all add: stored_num nullable_def int4_def fits_int_def)

lemma nullable_decimal:
  "fits_price v \<Longrightarrow>
   nullable decimal_10_2 (to_param (or_null truthy_num v)) = Inr (to_param (or_null truthy_num v))"
  by (cases v) (simp_all add: stored_num nullable_def decimal_10_2_def fits_price_def)

lemma nullable_varchar:
  "fits_str n v \<Longrightarrow>
   nullable (varchar n) (to_param (or_null truthy_str v)) = Inr (to_param (or_null truthy_str v))"
  by (cases v) (simp_all add: stored_str nullable_def varchar_def fits_str_def)

lemma not_null_varchar:
  "fits_str n (Val s) \<Longrightarrow> not_null (varchar n) (to_param (Val s)) = Inr s"
  by (simp add: not_null_def varchar_def fits_str_def to_param_def)

lemma convert_within_limits:
  assumes "b_title b = Val t" "b_author b = Val a" "within_limits b"
  shows "convert_columns (book_params b) =
     Inr \<lparr>c_title = t, c_author = a, c_year = p_year (book_params b),
          c_genre = p_genre (book_params b), c_pages = p_pages (book_params b),
          c_price = p_price (book_params b), c_isbn = p_isbn (book_params b),
          c_description = p_description (book_params b)\<rparr>"
proof -
  from assms have "fits_str 500 (Val t)" "fits_str 300 (Val a)" "fits_int (b_year b)"
    "fits_str 100 (b_genre b)" "fits_int (b_pages b)" "fits_price (b_price b)"
    "fits_str 20 (b_isbn b)"
    by (simp_all add: within_limits_def)
  then show ?thesis
    using assms(1,2)
    by (simp add: convert_columns_def book_params_def bind_err_def not_null_varchar
        nullable_int4 nullable_decimal nullable_varchar)
qed

lemma truthy_val: "truthy_str (Val s) \<longleftrightarrow> s \<noteq> []"
  by (simp add: truthy_str_def)

lemma updated_rows_filter:
  assumes "distinct (map book_id rs)" "r \<in> set rs" "book_id (f r) = book_id r"
  shows "filter (\<lambda>x. book_id x = book_id r) (map (\<lambda>x. if book_id x = book_id r then f x else x) rs)
     = [f r]"
  using assms
proof (induction rs)
  case Nil
  then show ?case by simp
next
  case (Cons x rs)
  show ?case
  proof (cases "x = r")
    case True
    with Cons.prems have "book_id r \<notin> book_id ` set rs" by auto
    then have "filter (\<lambda>x. book_id x = book_id r)
        (map (\<lambda>x. if book_id x = book_id r then f x else x) rs) = []"
      by (induction rs) auto
    with True Cons.prems(3) show ?thesis by simp
  next
    case False
    with Cons.prems have "r \<in> set rs" by simp
    moreover from this Cons.prems have "book_id x \<noteq> book_id r" by auto
    ultimately show ?thesis using Cons by simp
  qed
qed

lemma assign_columns_id [simp]:
  "book_id (assign_columns c r) = book_id r"
  "created_at (assign_columns c r) = created_at r"
  "updated_at (assign_columns c r) = updated_at r"
  by (simp_all add: assign_columns_def)

lemma update_book_reachable:
  assumes "next_ok d" "truthy_str (b_title b)" "truthy_str (b_author b)"
    "int4in idp = Inr i" "convert_columns (book_params b) = Inr c"
  shows "update_book d idp b =
     (if filter (\<lambda>r. book_id r = i)
           (map (\<lambda>r. if book_id r = i then (assign_columns c r)\<lparr>updated_at := now d\<rparr> else r) (rows d)) = []
      then respond 404 (Error ''Book not found'')
      else respond 200 (first_row (filter (\<lambda>r. book_id r = i)
           (map (\<lambda>r. if book_id r = i then (assign_columns c r)\<lparr>updated_at := now d\<rparr> else r) (rows d)))),
      d\<lparr>rows := map (\<lambda>r. if book_id r = i then (assign_columns c r)\<lparr>updated_at := now d\<rparr> else r) (rows d),
        faults := tl (faults d), issued := issued d + 1\<rparr>)"
  using assms(2-5)
  by (simp add: update_book_def pool_query_reachable [OF assms(1)] sql_update_def bind_err_def Let_def
      cong: if_cong)

lemma create_book_reachable:
  assumes "next_ok d" "truthy_str (b_title b)" "truthy_str (b_author b)"
    "int4 (next_id d) = Inr (next_id d)" "next_id d \<notin> book_id ` set (rows d)"
    "convert_columns (book_params b) = Inr c"
  shows "create_book d b =
     (respond 201 (Book (assign_columns c
          \<lparr>book_id = next_id d, title = [], author = [], year = None, genre = None,
           pages = None, price = None, isbn = None, description = None,
           created_at = now d, updated_at = now d\<rparr>)),
      d\<lparr>rows := rows d @ [assign_columns c
          \<lparr>book_id = next_id d, title = [], author = [], year = None, genre = None,
           pages = None, price = None, isbn = None, description = None,
           created_at = now d, updated_at = now d\<rparr>],
        next_id := next_id d + 1, faults := tl (faults d), issued := issued d + 1\<rparr>)"
  using assms(2-6)
  by (simp add: create_book_def pool_query_reachable [OF assms(1)] sql_insert_def bind_err_def
      Let_def first_row_def)

lemma same_id_same_row:
  "distinct (map book_id rs) \<Longrightarrow> x \<in> set rs \<Longrightarrow> r \<in> set rs \<Longrightarrow> book_id x = book_id r \<Longrightarrow> x = r"
  by (meson distinct_map inj_on_eq_iff)

lemma update_book_row:
  assumes ok: "next_ok d" and key: "distinct (map book_id (rows d))"
    and idp: "int4in idp = Inr i" and r: "r \<in> set (rows d)" "book_id r = i"
    and t: "b_title b = Val t" "t \<noteq> []" and a: "b_author b = Val a" "a \<noteq> []"
    and lim: "within_limits b"
  shows "update_book d idp b =
     (respond 200 (Book (r\<lparr>title := t, author := a, year := p_year (book_params b),
          genre := p_genre (book_params b), pages := p_pages (book_params b),
          price := p_price (book_params b), isbn := p_isbn (book_params b),
          description := p_description (book_params b), updated_at := now d\<rparr>)),
      d\<lparr>rows := map (\<lambda>x. if book_id x = i
            then r\<lparr>title := t, author := a, year := p_year (book_params b),
                   genre := p_genre (book_params b), pages := p_pages (book_params b),
                   price := p_price (book_params b), isbn := p_isbn (book_params b),
                   description := p_description (book_params b), updated_at := now d\<rparr>
            else x) (rows d),
        faults := tl (faults d), issued := issued d + 1\<rparr>)"
proof -
  define c where "c = \<lparr>c_title = t, c_author = a, c_year = p_year (book_params b),
          c_genre = p_genre (book_params b), c_pages = p_pages (book_params b),
          c_price = p_price (book_params b), c_isbn = p_isbn (book_params b),
          c_description = p_description (book_params b)\<rparr>"
  define f where "f = (\<lambda>x. (assign_columns c x)\<lparr>updated_at := now d\<rparr>)"
  have conv: "convert_columns (book_params b) = Inr c"
    unfolding c_def by (rule convert_within_limits [OF t(1) a(1) lim])
  have tr: "truthy_str (b_title b)" "truthy_str (b_author b)"
    using t a by (simp_all add: truthy_val)
  have fr: "f r = r\<lparr>title := t, author := a, year := p_year (book_params b),
          genre := p_genre (book_params b), pages := p_pages (book_params b),
          price := p_price (book_params b), isbn := p_isbn (book_params b),
          description := p_description (book_params b), updated_at := now d\<rparr>"
    by (simp add: f_def c_def assign_columns_def)
  have same: "map (\<lambda>x. if book_id x = i then f x else x) (rows d)
      = map (\<lambda>x. if book_id x = i then f r else x) (rows d)"
  proof (rule map_cong [OF refl])
    fix x assume "x \<in> set (rows d)"
    with same_id_same_row [OF key this r(1)] r(2)
    show "(if book_id x = i then f x else x) = (if book_id x = i then f r else x)" by auto
  qed
  have "book_id (f r) = book_id r" by (simp add: f_def)
  from updated_rows_filter [of "rows d" r f, OF key r(1) this] r(2)
  have one: "filter (\<lambda>x. book_id x = i) (map (\<lambda>x. if book_id x = i then f x else x) (rows d)) = [f r]"
    by simp
  have "update_book d idp b =
     (respond 200 (Book (f r)),
      d\<lparr>rows := map (\<lambda>x. if book_id x = i then f x else x) (rows d),
        faults := tl (faults d), issued := issued d + 1\<rparr>)"
    unfolding f_def using one [unfolded f_def]
    by (simp add: update_book_reachable [OF ok tr idp conv] first_row_def)
  then show ?thesis by (simp only: same fr)
qed

lemma create_book_row:
  assumes ok: "next_ok d" and fresh: "next_id d \<notin> book_id ` set (rows d)"
    and range: "0 < next_id d" "next_id d \<le> 2147483647"
    and t: "b_title b = Val t" "t \<noteq> []" and a: "b_author b = Val a" "a \<noteq> []"
    and lim: "within_limits b"
  shows "create_book d b =
     (respond 201 (Book
        \<lparr>book_id = next_id d, title = t, author = a, year = p_year (book_params b),
         genre = p_genre (book_params b), pages = p_pages (book_params b),
         price = p_price (book_params b), isbn = p_isbn (book_params b),
         description = p_description (book_params b),
         created_at = now d, updated_at = now d\<rparr>),
      d\<lparr>rows := rows d @ [
        \<lparr>book_id = next_id d, title = t, author = a, year = p_year (book_params b),
         genre = p_genre (book_params b), pages = p_pages (book_params b),
         price = p_price (book_params b), isbn = p_isbn (book_params b),
         description = p_description (book_params b),
         created_at = now d, updated_at = now d\<rparr>],
        next_id := next_id d + 1, faults := tl (faults d), issued := issued d + 1\<rparr>)"
proof -
  have tr: "truthy_str (b_title b)" "truthy_str (b_author b)"
    using t a by (simp_all add: truthy_val)
  have i4: "int4 (next_id d) = Inr (next_id d)" using range by (simp add: int4_def)
  show ?thesis
    by (simp add: create_book_reachable [OF ok tr i4 fresh convert_within_limits [OF t(1) a(1) lim]]
        assign_columns_def)
qed

lemma wf_db_row:
  "wf_db d \<Longrightarrow> r \<in> set (rows d) \<Longrightarrow>
     book_id r < next_id d \<and> created_at r \<le> updated_at r \<and> updated_at r \<le> now d"
  by (simp add: wf_db_def list_all_iff)

lemma wf_db_key: "wf_db d \<Longrightarrow> distinct (map book_id (rows d))"
  by (simp add: wf_db_def)

lemma wf_db_fresh: "wf_db d \<Longrightarrow> next_id d \<notin> book_id ` set (rows d)"
  using wf_db_row by fastforce

lemma wf_shelf: "wf_db shelf"
  by (simp add: wf_db_def shelf_def dune_def)

lemma year_zero_params:
  "book_params (dune_body\<lparr>b_year := Val 0\<rparr>) =
     \<lparr>p_title = Some ''Dune'', p_author = Some ''Herbert'', p_year = None,
      p_genre = Some ''Sci-Fi'', p_pages = None, p_price = Some 1250, p_isbn = None,
      p_description = None\<rparr>"
  by (simp add: book_params_def dune_body_def to_param_def or_null_def truthy_num_def
      truthy_str_def)

lemma dune_body_within_limits: "within_limits (dune_body\<lparr>b_year := Val 0\<rparr>)"
  by (simp add: dune_body_def within_limits_def fits_str_def fits_int_def fits_price_def)

lemma blank_fields_params:
  "book_params (dune_body\<lparr>b_year := Val 0, b_genre := Val [], b_price := Val 0\<rparr>) =
     \<lparr>p_title = Some ''Dune'', p_author = Some ''Herbert'', p_year = None,
      p_genre = None, p_pages = None, p_price = None, p_isbn = None,
      p_description = None\<rparr>"
  by (simp add: book_params_def dune_body_def to_param_def or_null_def truthy_num_def
      truthy_str_def)

lemma blank_fields_within_limits:
  "within_limits (dune_body\<lparr>b_year := Val 0, b_genre := Val [], b_price := Val 0\<rparr>)"
  by (simp add: dune_body_def within_limits_def fits_str_def fits_int_def fits_price_def)

text \<open>
  Claim C2 says that Update replaces every editable field by the supplied value. An
  Update of Dune that supplies the year 0 leaves the year \<^verbatim>\<open>NULL\<close>, not 0.
\<close>

theorem update_counterexample:
  "fst (update_book shelf ''1'' (dune_body\<lparr>b_year := Val 0\<rparr>))
     = respond 200 (Book (dune\<lparr>year := None, updated_at := 20\<rparr>))
   \<and> year (dune\<lparr>year := None, updated_at := 20\<rparr>) \<noteq> Some 0"
proof -
  have row: "dune \<in> set (rows shelf)" "book_id dune = 1" by (simp_all add: shelf_def dune_def)
  have t: "b_title (dune_body\<lparr>b_year := Val 0\<rparr>) = Val ''Dune''" "''Dune'' \<noteq> []"
    and a: "b_author (dune_body\<lparr>b_year := Val 0\<rparr>) = Val ''Herbert''" "''Herbert'' \<noteq> []"
    by (simp_all add: dune_body_def)
  have "fst (update_book shelf ''1'' (dune_body\<lparr>b_year := Val 0\<rparr>))
     = respond 200 (Book (dune\<lparr>title := ''Dune'', author := ''Herbert'', year := None,
          genre := Some ''Sci-Fi'', pages := None, price := Some 1250, isbn := None,
          description := None, updated_at := now shelf\<rparr>))"
    by (simp add: update_book_row [OF next_ok_shelf wf_db_key [OF wf_shelf] int4in_1 row t a
          dune_body_within_limits] year_zero_params)
  then show ?thesis by (simp add: shelf_def dune_def)
qed

text \<open>
  Claim C2, amended. An Update of an existing id with a non-empty title and author,
  within the column limits and with the store reachable, answers with the updated
  record: its id and \<^verbatim>\<open>created_at\<close> are unchanged, \<^verbatim>\<open>updated_at\<close> is the current
  time, not before its prior value, title and author are the supplied ones, and every
  other editable field is the supplied value when that value is truthy and \<^verbatim>\<open>NULL\<close>
  when the field is absent, \<^verbatim>\<open>null\<close>, zero or the empty string. Nothing of the old
  values is kept, and no other row changes.
\<close>

theorem update_replaces_editable_fields:
  assumes "next_ok d" and "wf_db d"
    and "int4in idp = Inr i" and "r \<in> set (rows d)" and "book_id r = i"
    and "b_title b = Val t" and "t \<noteq> []" and "b_author b = Val a" and "a \<noteq> []"
    and "within_limits b"
  shows "\<exists>r'. fst (update_book d idp b) = respond 200 (Book r')
     \<and> rows (snd (update_book d idp b)) = map (\<lambda>x. if book_id x = i then r' else x) (rows d)
     \<and> book_id r' = book_id r \<and> created_at r' = created_at r
     \<and> updated_at r' = now d \<and> updated_at r \<le> updated_at r'
     \<and> title r' = t \<and> author r' = a
     \<and> year r' = (case b_year b of Val n \<Rightarrow> if n = 0 then None else Some n | _ \<Rightarrow> None)
     \<and> genre r' = (case b_genre b of Val s \<Rightarrow> if s = [] then None else Some s | _ \<Rightarrow> None)
     \<and> pages r' = (case b_pages b of Val n \<Rightarrow> if n = 0 then None else Some n | _ \<Rightarrow> None)
     \<and> price r' = (case b_price b of Val n \<Rightarrow> if n = 0 then None else Some n | _ \<Rightarrow> None)
     \<and> isbn r' = (case b_isbn b of Val s \<Rightarrow> if s = [] then None else Some s | _ \<Rightarrow> None)
     \<and> description r' =
         (case b_description b of Val s \<Rightarrow> if s = [] then None else Some s | _ \<Rightarrow> None)"
proof -
  let ?r' = "r\<lparr>title := t, author := a, year := p_year (book_params b),
          genre := p_genre (book_params b), pages := p_pages (book_params b),
          price := p_price (book_params b), isbn := p_isbn (book_params b),
          description := p_description (book_params b), updated_at := now d\<rparr>"
  have upd: "update_book d idp b =
     (respond 200 (Book ?r'),
      d\<lparr>rows := map (\<lambda>x. if book_id x = i then ?r' else x) (rows d),
        faults := tl (faults d), issued := issued d + 1\<rparr>)"
    by (rule update_book_row [OF assms(1) wf_db_key [OF assms(2)] assms(3-10)])
  have clock: "updated_at r \<le> now d" using wf_db_row [OF assms(2,4)] by simp
  have "fst (update_book d idp b) = respond 200 (Book ?r')" by (simp add: upd)
  moreover have "rows (snd (update_book d idp b)) = map (\<lambda>x. if book_id x = i then ?r' else x) (rows d)"
    by (simp add: upd)
  moreover have "book_id ?r' = book_id r \<and> created_at ?r' = created_at r
     \<and> updated_at ?r' = now d \<and> updated_at r \<le> updated_at ?r' \<and> title ?r' = t \<and> author ?r' = a"
    using clock by simp
  moreover have "year ?r' = (case b_year b of Val n \<Rightarrow> if n = 0 then None else Some n | _ \<Rightarrow> None)
     \<and> genre ?r' = (case b_genre b of Val s \<Rightarrow> if s = [] then None else Some s | _ \<Rightarrow> None)
     \<and> pages ?r' = (case b_pages b of Val n \<Rightarrow> if n = 0 then None else Some n | _ \<Rightarrow> None)
     \<and> price ?r' = (case b_price b of Val n \<Rightarrow> if n = 0 then None else Some n | _ \<Rightarrow> None)
     \<and> isbn ?r' = (case b_isbn b of Val s \<Rightarrow> if s = [] then None else Some s | _ \<Rightarrow> None)
     \<and> description ?r' =
         (case b_description b of Val s \<Rightarrow> if s = [] then None else Some s | _ \<Rightarrow> None)"
    by (simp add: book_params_def stored_num stored_str)
  ultimately show ?thesis by blast
qed

theorem update_replaces_editable_fields_witness:
  "next_ok shelf \<and> wf_db shelf \<and> int4in ''1'' = Inr 1 \<and> dune \<in> set (rows shelf)
   \<and> within_limits (dune_body\<lparr>b_year := Val 0\<rparr>)
   \<and> (\<exists>r'. fst (update_book shelf ''1'' (dune_body\<lparr>b_year := Val 0\<rparr>)) = respond 200 (Book r')
         \<and> book_id r' = 1 \<and> created_at r' = 10 \<and> updated_at r' = 20
         \<and> title r' = ''Dune'' \<and> year r' = None \<and> genre r' = Some ''Sci-Fi''
         \<and> pages r' = None \<and> price r' = Some 1250)"
proof -
  have row: "dune \<in> set (rows shelf)" "book_id dune = 1" by (simp_all add: shelf_def dune_def)
  have t: "b_title (dune_body\<lparr>b_year := Val 0\<rparr>) = Val ''Dune''" "''Dune'' \<noteq> []"
    and a: "b_author (dune_body\<lparr>b_year := Val 0\<rparr>) = Val ''Herbert''" "''Herbert'' \<noteq> []"
    by (simp_all add: dune_body_def)
  from update_replaces_editable_fields [OF next_ok_shelf wf_shelf int4in_1 row t a
      dune_body_within_limits]
  obtain r' where "fst (update_book shelf ''1'' (dune_body\<lparr>b_year := Val 0\<rparr>)) = respond 200 (Book r')"
    "book_id r' = book_id dune" "created_at r' = created_at dune" "updated_at r' = now shelf"
    "title r' = ''Dune''"
    "year r' = (case b_year (dune_body\<lparr>b_year := Val 0\<rparr>) of Val n \<Rightarrow> if n = 0 then None else Some n | _ \<Rightarrow> None)"
    "genre r' = (case b_genre (dune_body\<lparr>b_year := Val 0\<rparr>) of Val s \<Rightarrow> if s = [] then None else Some s | _ \<Rightarrow> None)"
    "pages r' = (case b_pages (dune_body\<lparr>b_year := Val 0\<rparr>) of Val n \<Rightarrow> if n = 0 then None else Some n | _ \<Rightarrow> None)"
    "price r' = (case b_price (dune_body\<lparr>b_year := Val 0\<rparr>) of Val n \<Rightarrow> if n = 0 then None else Some n | _ \<Rightarrow> None)"
    by blast
  then have "fst (update_book shelf ''1'' (dune_body\<lparr>b_year := Val 0\<rparr>)) = respond 200 (Book r')
         \<and> book_id r' = 1 \<and> created_at r' = 10 \<and> updated_at r' = 20
         \<and> title r' = ''Dune'' \<and> year r' = None \<and> genre r' = Some ''Sci-Fi''
         \<and> pages r' = None \<and> price r' = Some 1250"
    by (simp add: dune_body_def dune_def shelf_def)
  then have "\<exists>r'. fst (update_book shelf ''1'' (dune_body\<lparr>b_year := Val 0\<rparr>)) = respond 200 (Book r')
         \<and> book_id r' = 1 \<and> created_at r' = 10 \<and> updated_at r' = 20
         \<and> title r' = ''Dune'' \<and> year r' = None \<and> genre r' = Some ''Sci-Fi''
         \<and> pages r' = None \<and> price r' = Some 1250"
    by blast
  with next_ok_shelf wf_shelf int4in_1 row(1) dune_body_within_limits show ?thesis by blast
qed

text \<open>
  Claim C7 says that a supplied 0 or empty string is stored as supplied, distinct from
  an absent field. A Create that supplies the year 0, the price 0 and an empty genre
  stores \<^verbatim>\<open>NULL\<close> in all three columns.
\<close>

theorem create_counterexample:
  "fst (create_book shelf (dune_body\<lparr>b_year := Val 0, b_genre := Val [], b_price := Val 0\<rparr>))
     = respond 201 (Book (dune\<lparr>book_id := 2, year := None, genre := None, price := None,
                               created_at := 20, updated_at := 20\<rparr>))
   \<and> year (dune\<lparr>book_id := 2, year := None, genre := None, price := None,
               created_at := 20, updated_at := 20\<rparr>) \<noteq> Some 0
   \<and> genre (dune\<lparr>book_id := 2, year := None, genre := None, price := None,
                created_at := 20, updated_at := 20\<rparr>) \<noteq> Some []"
proof -
  let ?b = "dune_body\<lparr>b_year := Val 0, b_genre := Val [], b_price := Val 0\<rparr>"
  have t: "b_title ?b = Val ''Dune''" "''Dune'' \<noteq> []"
    and a: "b_author ?b = Val ''Herbert''" "''Herbert'' \<noteq> []"
    by (simp_all add: dune_body_def)
  have range: "0 < next_id shelf" "next_id shelf \<le> 2147483647" by (simp_all add: shelf_def)
  have "fst (create_book shelf ?b) = respond 201 (Book
        \<lparr>book_id = next_id shelf, title = ''Dune'', author = ''Herbert'', year = None,
         genre = None, pages = None, price = None, isbn = None, description = None,
         created_at = now shelf, updated_at = now shelf\<rparr>)"
    by (simp add: create_book_row [OF next_ok_shelf wf_db_fresh [OF wf_shelf] range t a
          blank_fields_within_limits] blank_fields_params)
  then show ?thesis by (simp add: shelf_def dune_def)
qed

text \<open>
  Claim C7, amended. In the parameters of Create and Update, an optional field that is
  absent, \<^verbatim>\<open>null\<close>, zero or the empty string is \<^verbatim>\<open>NULL\<close>, and any other supplied
  value is itself; there is no default value. With a body within the column limits and
  the store reachable, the record that Create and Update store and return holds exactly
  these parameters in its optional columns.
\<close>

theorem optional_fields_null_when_falsy:
  assumes "next_ok d" and "wf_db d"
    and "b_title b = Val t" and "t \<noteq> []" and "b_author b = Val a" and "a \<noteq> []"
    and "within_limits b"
  shows "p_year (book_params b)
           = (case b_year b of Val n \<Rightarrow> if n = 0 then None else Some n | _ \<Rightarrow> None)
     \<and> p_genre (book_params b)
           = (case b_genre b of Val s \<Rightarrow> if s = [] then None else Some s | _ \<Rightarrow> None)
     \<and> p_pages (book_params b)
           = (case b_pages b of Val n \<Rightarrow> if n = 0 then None else Some n | _ \<Rightarrow> None)
     \<and> p_price (book_params b)
           = (case b_price b of Val n \<Rightarrow> if n = 0 then None else Some n | _ \<Rightarrow> None)
     \<and> p_isbn (book_params b)
           = (case b_isbn b of Val s \<Rightarrow> if s = [] then None else Some s | _ \<Rightarrow> None)
     \<and> p_description (book_params b)
           = (case b_description b of Val s \<Rightarrow> if s = [] then None else Some s | _ \<Rightarrow> None)
     \<and> (next_id d \<le> 2147483647 \<longrightarrow>
          (\<exists>r. fst (create_book d b) = respond 201 (Book r)
             \<and> r \<in> set (rows (snd (create_book d b)))
             \<and> year r = p_year (book_params b) \<and> genre r = p_genre (book_params b)
             \<and> pages r = p_pages (book_params b) \<and> price r = p_price (book_params b)
             \<and> isbn r = p_isbn (book_params b)
             \<and> description r = p_description (book_params b)))
     \<and> (int4in idp = Inr i \<and> i \<in> book_id ` set (rows d) \<longrightarrow>
          (\<exists>r. fst (update_book d idp b) = respond 200 (Book r)
             \<and> r \<in> set (rows (snd (update_book d idp b)))
             \<and> year r = p_year (book_params b) \<and> genre r = p_genre (book_params b)
             \<and> pages r = p_pages (book_params b) \<and> price r = p_price (book_params b)
             \<and> isbn r = p_isbn (book_params b)
             \<and> description r = p_description (book_params b)))"
proof -
  have params: "p_year (book_params b)
           = (case b_year b of Val n \<Rightarrow> if n = 0 then None else Some n | _ \<Rightarrow> None)
     \<and> p_genre (book_params b)
           = (case b_genre b of Val s \<Rightarrow> if s = [] then None else Some s | _ \<Rightarrow> None)
     \<and> p_pages (book_params b)
           = (case b_pages b of Val n \<Rightarrow> if n = 0 then None else Some n | _ \<Rightarrow> None)
     \<and> p_price (book_params b)
           = (case b_price b of Val n \<Rightarrow> if n = 0 then None else Some n | _ \<Rightarrow> None)
     \<and> p_isbn (book_params b)
           = (case b_isbn b of Val s \<Rightarrow> if s = [] then None else Some s | _ \<Rightarrow> None)
     \<and> p_description (book_params b)
           = (case b_description b of Val s \<Rightarrow> if s = [] then None else Some s | _ \<Rightarrow> None)"
    by (simp add: book_params_def stored_num stored_str)
  have create: "\<exists>r. fst (create_book d b) = respond 201 (Book r)
             \<and> r \<in> set (rows (snd (create_book d b)))
             \<and> year r = p_year (book_params b) \<and> genre r = p_genre (book_params b)
             \<and> pages r = p_pages (book_params b) \<and> price r = p_price (book_params b)
             \<and> isbn r = p_isbn (book_params b)
             \<and> description r = p_description (book_params b)"
    if range: "next_id d \<le> 2147483647"
  proof -
    have pos: "0 < next_id d" using assms(2) by (simp add: wf_db_def)
    let ?r = "\<lparr>book_id = next_id d, title = t, author = a, year = p_year (book_params b),
         genre = p_genre (book_params b), pages = p_pages (book_params b),
         price = p_price (book_params b), isbn = p_isbn (book_params b),
         description = p_description (book_params b),
         created_at = now d, updated_at = now d\<rparr>"
    have c: "create_book d b =
       (respond 201 (Book ?r),
        d\<lparr>rows := rows d @ [?r], next_id := next_id d + 1, faults := tl (faults d),
          issued := issued d + 1\<rparr>)"
      by (rule create_book_row [OF assms(1) wf_db_fresh [OF assms(2)] pos range assms(3-7)])
    have "fst (create_book d b) = respond 201 (Book ?r)
        \<and> ?r \<in> set (rows (snd (create_book d b)))
        \<and> year ?r = p_year (book_params b) \<and> genre ?r = p_genre (book_params b)
        \<and> pages ?r = p_pages (book_params b) \<and> price ?r = p_price (book_params b)
        \<and> isbn ?r = p_isbn (book_params b)
        \<and> description ?r = p_description (book_params b)"
      by (simp add: c)
    then show ?thesis by blast
  qed
  have update: "\<exists>r. fst (update_book d idp b) = respond 200 (Book r)
             \<and> r \<in> set (rows (snd (update_book d idp b)))
             \<and> year r = p_year (book_params b) \<and> genre r = p_genre (book_params b)
             \<and> pages r = p_pages (book_params b) \<and> price r = p_price (book_params b)
             \<and> isbn r = p_isbn (book_params b)
             \<and> description r = p_description (book_params b)"
    if found: "int4in idp = Inr i \<and> i \<in> book_id ` set (rows d)"
  proof -
    from found obtain r0 where r0: "r0 \<in> set (rows d)" "book_id r0 = i" by auto
    let ?r = "r0\<lparr>title := t, author := a, year := p_year (book_params b),
          genre := p_genre (book_params b), pages := p_pages (book_params b),
          price := p_price (book_params b), isbn := p_isbn (book_params b),
          description := p_description (book_params b), updated_at := now d\<rparr>"
    from found have idp: "int4in idp = Inr i" by simp
    have u: "update_book d idp b =
       (respond 200 (Book ?r),
        d\<lparr>rows := map (\<lambda>x. if book_id x = i then ?r else x) (rows d),
          faults := tl (faults d), issued := issued d + 1\<rparr>)"
      by (rule update_book_row [OF assms(1) wf_db_key [OF assms(2)] idp r0 assms(3-7)])
    have "?r \<in> set (map (\<lambda>x. if book_id x = i then ?r else x) (rows d))"
      using r0 by (force simp: image_iff)
    then have "fst (update_book d idp b) = respond 200 (Book ?r)
        \<and> ?r \<in> set (rows (snd (update_book d idp b)))
        \<and> year ?r = p_year (book_params b) \<and> genre ?r = p_genre (book_params b)
        \<and> pages ?r = p_pages (book_params b) \<and> price ?r = p_price (book_params b)
        \<and> isbn ?r = p_isbn (book_params b)
        \<and> description ?r = p_description (book_params b)"
      by (simp add: u)
    then show ?thesis by blast
  qed
  from params create update show ?thesis by blast
qed

theorem optional_fields_null_when_falsy_witness:
  "next_ok shelf \<and> wf_db shelf
   \<and> (\<exists>r. fst (create_book shelf
               (dune_body\<lparr>b_year := Val 0, b_genre := Val [], b_price := Val 0\<rparr>))
             = respond 201 (Book r)
          \<and> year r = None \<and> genre r = None \<and> pages r = None \<and> price r = None)
   \<and> (\<exists>r. fst (update_book shelf ''1''
               (dune_body\<lparr>b_year := Val 0, b_genre := Val [], b_price := Val 0\<rparr>))
             = respond 200 (Book r)
          \<and> year r = None \<and> genre r = None \<and> pages r = None \<and> price r = None)"
proof -
  let ?b = "dune_body\<lparr>b_year := Val 0, b_genre := Val [], b_price := Val 0\<rparr>"
  have t: "b_title ?b = Val ''Dune''" "''Dune'' \<noteq> []"
    and a: "b_author ?b = Val ''Herbert''" "''Herbert'' \<noteq> []"
    by (simp_all add: dune_body_def)
  have range: "next_id shelf \<le> 2147483647" by (simp add: shelf_def)
  have found: "int4in ''1'' = Inr 1 \<and> 1 \<in> book_id ` set (rows shelf)"
    by (simp add: int4in_1) (simp add: shelf_def dune_def)
  note inst = optional_fields_null_when_falsy [OF next_ok_shelf wf_shelf t a
      blank_fields_within_limits, of "''1''" 1]
  from inst range have "\<exists>r. fst (create_book shelf ?b) = respond 201 (Book r)
          \<and> year r = None \<and> genre r = None \<and> pages r = None \<and> price r = None"
    by (simp add: blank_fields_params) blast
  moreover from inst found have "\<exists>r. fst (update_book shelf ''1'' ?b) = respond 200 (Book r)
          \<and> year r = None \<and> genre r = None \<and> pages r = None \<and> price r = None"
    by (simp add: blank_fields_params) blast
  ultimately show ?thesis using next_ok_shelf wf_shelf by blast
qed

subsection \<open>Every request keeps the table well formed\<close>

lemma wf_db_frame:
  "rows d' = rows d \<Longrightarrow> next_id d' = next_id d \<Longrightarrow> now d' = now d \<Longrightarrow> wf_db d' = wf_db d"
  by (simp add: wf_db_def)

lemma wf_db_tick: "wf_db d \<Longrightarrow> wf_db (tick n d)"
  by (auto simp: wf_db_def tick_def list_all_iff)

lemma pool_query_wf:
  assumes "wf_db d"
    and step: "\<And>d1 a d2. wf_db d1 \<Longrightarrow> stmt d1 = Inr (a, d2) \<Longrightarrow> wf_db d2"
  shows "wf_db (snd (pool_query d stmt))"
proof -
  let ?d1 = "d\<lparr>faults := tl (faults d), issued := issued d + 1\<rparr>"
  have d1: "wf_db ?d1" using assms(1) by (simp add: wf_db_def)
  then have d1f: "wf_db (?d1\<lparr>failed := failed ?d1 + 1\<rparr>)" by (simp add: wf_db_def)
  show ?thesis
  proof (cases "faults d \<noteq> [] \<and> hd (faults d)")
    case True
    with d1f show ?thesis by (simp add: pool_query_def Let_def)
  next
    case False
    show ?thesis
    proof (cases "stmt ?d1")
      case (Inl e)
      with False d1f show ?thesis by (simp add: pool_query_def Let_def)
    next
      case (Inr p)
      obtain a d2 where p: "p = (a, d2)" by (cases p)
      with Inr step [OF d1, of a d2] have "wf_db d2" by simp
      with False Inr p show ?thesis by (auto simp: pool_query_def Let_def)
    qed
  qed
qed

lemma then_do_wf:
  assumes "wf_db (snd m)" and "\<And>x d'. wf_db d' \<Longrightarrow> wf_db (snd (f x d'))"
  shows "wf_db (snd (then_do m f))"
  using assms by (cases m; cases "fst m") (auto simp: then_do_def)

lemma catch_500_snd [simp]: "snd (catch_500 msg m) = snd m"
  by (cases m; cases "fst m") (auto simp: catch_500_def)

lemma read_only_wf:
  assumes "wf_db d" and "\<And>d1 a d2. stmt d1 = Inr (a, d2) \<Longrightarrow> d2 = d1"
  shows "wf_db (snd (then_do (pool_query d stmt) (\<lambda>res d'. (Inr (k res), d'))))"
proof (rule then_do_wf)
  show "wf_db (snd (pool_query d stmt))"
    by (rule pool_query_wf [OF assms(1)]) (use assms(2) in blast)
qed simp

lemma sql_insert_wf:
  assumes "wf_db d1" "sql_insert p d1 = Inr (a, d2)"
  shows "wf_db d2"
proof -
  from assms(2) obtain c where c: "convert_columns p = Inr c"
    and fresh: "next_id d1 \<notin> book_id ` set (rows d1)"
    and d2: "d2 = d1\<lparr>rows := rows d1 @ [assign_columns c
          \<lparr>book_id = next_id d1, title = [], author = [], year = None, genre = None,
           pages = None, price = None, isbn = None, description = None,
           created_at = now d1, updated_at = now d1\<rparr>], next_id := next_id d1 + 1\<rparr>"
    by (cases "int4 (next_id d1)"; cases "convert_columns p")
       (auto simp: sql_insert_def bind_err_def Let_def int4_def split: if_splits)
  from assms(1) fresh show ?thesis
    unfolding d2 by (auto simp: wf_db_def list_all_iff)
qed

lemma sql_update_wf:
  assumes "wf_db d1" "sql_update p idp d1 = Inr (a, d2)"
  shows "wf_db d2"
proof -
  from assms(2) obtain i c where
    d2: "d2 = d1\<lparr>rows := map (\<lambda>r. if book_id r = i
            then (assign_columns c r)\<lparr>updated_at := now d1\<rparr> else r) (rows d1)\<rparr>"
    by (cases "int4in idp"; cases "convert_columns p")
       (auto simp: sql_update_def bind_err_def Let_def)
  have ids: "map (book_id \<circ> (\<lambda>r. if book_id r = i
            then (assign_columns c r)\<lparr>updated_at := now d1\<rparr> else r)) (rows d1)
      = map book_id (rows d1)"
    by (rule map_cong [OF refl]) simp
  from assms(1) show ?thesis
    unfolding d2 by (auto simp: wf_db_def list_all_iff ids)
qed

lemma sql_delete_wf:
  assumes "wf_db d1" "sql_delete idp d1 = Inr (a, d2)"
  shows "wf_db d2"
proof -
  from assms(2) obtain i where d2: "d2 = d1\<lparr>rows := filter (\<lambda>r. book_id r \<noteq> i) (rows d1)\<rparr>"
    by (cases "int4in idp") (auto simp: sql_delete_def bind_err_def)
  from assms(1) show ?thesis
    unfolding d2 by (auto simp: wf_db_def list_all_iff distinct_map_filter)
qed

lemma read_only_statements:
  "sql_select_books cs d1 = Inr (bs, d2) \<Longrightarrow> d2 = d1"
  "sql_select_by_id idp d1 = Inr (bs, d2) \<Longrightarrow> d2 = d1"
  "sql_distinct_genres le d1 = Inr (gs, d2) \<Longrightarrow> d2 = d1"
  "sql_count_books d1 = Inr (n, d2) \<Longrightarrow> d2 = d1"
  "sql_count_authors d1 = Inr (n, d2) \<Longrightarrow> d2 = d1"
  "sql_count_genres d1 = Inr (n, d2) \<Longrightarrow> d2 = d1"
  "sql_sum_price d1 = Inr (s, d2) \<Longrightarrow> d2 = d1"
  by (cases "int4in idp";
      auto simp: sql_select_books_def sql_select_by_id_def sql_distinct_genres_def
        sql_count_books_def sql_count_authors_def sql_count_genres_def sql_sum_price_def
        bind_err_def split: if_splits)+

lemma read_query_wf:
  assumes "wf_db d" and "\<And>d1 a d2. stmt d1 = Inr (a, d2) \<Longrightarrow> d2 = d1"
  shows "wf_db (snd (pool_query d stmt))"
  by (rule pool_query_wf [OF assms(1)]) (use assms(2) in blast)

lemma get_stats_wf: "wf_db d \<Longrightarrow> wf_db (snd (get_stats d))"
  unfolding get_stats_def catch_500_snd
  by (intro then_do_wf read_query_wf) (simp_all add: read_only_statements)

lemma create_book_wf: "wf_db d \<Longrightarrow> wf_db (snd (create_book d b))"
  unfolding create_book_def catch_500_snd
  by (auto intro!: then_do_wf pool_query_wf elim: sql_insert_wf)

lemma update_book_wf: "wf_db d \<Longrightarrow> wf_db (snd (update_book d idp b))"
  unfolding update_book_def catch_500_snd if_response
  by (auto intro!: then_do_wf pool_query_wf elim: sql_update_wf)

lemma delete_book_wf: "wf_db d \<Longrightarrow> wf_db (snd (delete_book d idp))"
  unfolding delete_book_def catch_500_snd if_response
  by (auto intro!: then_do_wf pool_query_wf elim: sql_delete_wf)

lemma wf_db_handle: "wf_db d \<Longrightarrow> wf_db (snd (handle le rq d))"
proof (cases rq)
  case (List s g)
  assume "wf_db d"
  then have "wf_db (snd (list_books d s g))"
    unfolding list_books_def catch_500_snd
    by (rule read_only_wf) (rule read_only_statements)
  with List show ?thesis by simp
next
  case (Get idp)
  assume "wf_db d"
  then have "wf_db (snd (get_book d idp))"
    unfolding get_book_def catch_500_snd if_response
    by (rule read_only_wf) (rule read_only_statements)
  with Get show ?thesis by simp
next
  case (Create b)
  assume "wf_db d"
  with Create create_book_wf show ?thesis by simp
next
  case (Update idp b)
  assume "wf_db d"
  with Update update_book_wf show ?thesis by simp
next
  case (Delete idp)
  assume "wf_db d"
  with Delete delete_book_wf show ?thesis by simp
next
  case Stats
  assume "wf_db d"
  with Stats get_stats_wf show ?thesis by simp
next
  case GenreList
  assume "wf_db d"
  then have "wf_db (snd (get_genres le d))"
    unfolding get_genres_def catch_500_snd
    by (rule read_only_wf) (rule read_only_statements)
  with GenreList show ?thesis by simp
qed

end
